theory Spec2Isabelle
  imports Main "HOL-Library.AList"
begin

section \<open>Python values used by the parsers\<close>

text \<open>
  The exceptions that the modelled code can raise. Each raise of the source is a branch
  of the model that returns \<open>Inl\<close> of one of these.
\<close>

datatype error =
    FileNotFoundError
  | IndexError
  | AttributeError
  | NameError
  | UnboundLocalError
  | AssertionError
  | TypeError
  | UnicodeDecodeError
  | SyntaxError
  | OtherError string

definition TAB :: char where
  "TAB = CHR 0x09"

definition LF :: char where
  "LF = CHR 0x0A"

definition CR :: char where
  "CR = CHR 0x0D"

text \<open>
  \<open>s.split(sep)\<close> for a one-character separator: the fields between the occurrences of
  \<open>sep\<close>, empty fields kept, so a string with \<open>n\<close> separators has \<open>n + 1\<close> fields and
  the empty string has the one field \<open>''\<close>.
\<close>

fun split_str :: "char \<Rightarrow> string \<Rightarrow> string list" where
  "split_str sep [] = [[]]"
| "split_str sep (c # cs) =
     (let r = split_str sep cs
      in if c = sep then [] # r else (c # hd r) # tl r)"

text \<open>
  \<open>open(file_path, 'r')\<close> opens in text mode with universal newlines: on reading,
  \<open>\r\n\<close> and a lone \<open>\r\<close> are both delivered as \<open>\n\<close>.
\<close>

fun universal_newlines :: "string \<Rightarrow> string" where
  "universal_newlines [] = []"
| "universal_newlines [c] = (if c = CR then [LF] else [c])"
| "universal_newlines (c # d # cs) =
     (if c = CR then
        (if d = LF then LF # universal_newlines cs else LF # universal_newlines (d # cs))
      else c # universal_newlines (d # cs))"

text \<open>
  The lines that \<open>readlines()\<close> makes of a text: the text cut after each \<open>\n\<close>,
  every line keeping its newline; a last line without newline is kept as it is, and an
  empty text has no line.
\<close>

fun readlines :: "string \<Rightarrow> string list" where
  "readlines [] = []"
| "readlines (c # cs) =
     (if c = LF then [LF] # readlines cs
      else (case readlines cs of [] \<Rightarrow> [[c]] | l # ls \<Rightarrow> (c # l) # ls))"

text \<open>
  The file system: a path either names no file or a file with its content. The content
  is read as text in the default encoding: it either decodes to characters or it does
  not. Opening a path with no file raises \<open>FileNotFoundError\<close>; the file object
  returned by \<open>open\<close> is the content, still to be read.
\<close>

datatype file_content = Decodes string | Undecodable

type_synonym files = "string \<rightharpoonup> file_content"

definition open_r :: "files \<Rightarrow> string \<Rightarrow> error + file_content" where
  "open_r fs file_path =
     (case fs file_path of
        None \<Rightarrow> Inl FileNotFoundError
      | Some content \<Rightarrow> Inr content)"

text \<open>
  \<open>fobj.readlines()\<close> on a file object opened for reading at its start: content that
  does not decode raises \<open>UnicodeDecodeError\<close>; otherwise the lines of the decoded
  text after the translation of the newlines.
\<close>

definition fobj_readlines :: "file_content \<Rightarrow> error + string list" where
  "fobj_readlines fobj =
     (case fobj of
        Undecodable \<Rightarrow> Inl UnicodeDecodeError
      | Decodes raw \<Rightarrow> Inr (readlines (universal_newlines raw)))"

text \<open>\<open>'{}'.format(ix)\<close> for a non-negative integer: its decimal digits.\<close>

definition digit_char :: "nat \<Rightarrow> char" where
  "digit_char d = char_of (48 + d)"

function str_nat :: "nat \<Rightarrow> string" where
  "str_nat n = (if n < 10 then [digit_char n] else str_nat (n div 10) @ [digit_char (n mod 10)])"
  by pat_completeness auto
termination
  by (relation "measure id") auto

declare str_nat.simps [simp del]

section \<open>The task record\<close>

text \<open>
  Modelled from the spec: the class \<open>Task\<close> of \<open>conv.task\<close> is not among the sources.
  The spec describes the task record as a mutable aggregate holding sub-maps for session
  metadata (start and end timestamps), the trial list, the continuous streams (position
  x, z and time, head direction and time, speed) and the synchronization timestamps
  (time, frame, on/off), created empty. The parsers store the tokens of the file as they
  are, so every stored value is a string here. A key that has no value yet is \<open>None\<close>.
\<close>

record session_info =
  start_time :: "string option"
  end_time :: "string option"

record position_stream =
  pos_x :: "string list"
  pos_z :: "string list"
  pos_time :: "string list"
  pos_speed :: "string list"

record head_direction_stream =
  hd_degrees :: "string list"
  hd_time :: "string list"

record sync_stream =
  sync_time :: "string list"
  sync_frame :: "string list"
  sync_on_off :: "string list"

record task =
  session :: session_info
  trial :: "string list"
  position :: position_stream
  head_direction :: head_direction_stream
  sync_behavioral :: sync_stream

text \<open>\<open>Task()\<close>: the empty record.\<close>

definition Task_new :: task where
  "Task_new =
     \<lparr> session = \<lparr> start_time = None, end_time = None \<rparr>,
       trial = [],
       position = \<lparr> pos_x = [], pos_z = [], pos_time = [], pos_speed = [] \<rparr>,
       head_direction = \<lparr> hd_degrees = [], hd_time = [] \<rparr>,
       sync_behavioral = \<lparr> sync_time = [], sync_frame = [], sync_on_off = [] \<rparr> \<rparr>"

text \<open>
  The truth value of the name \<open>Task\<close> itself, which is what \<open>if not Task:\<close> tests:
  \<open>Task\<close> is bound to a class by the import, and a class object is true.
\<close>

definition Task_truth :: bool where
  "Task_truth = True"

section \<open>The log parser\<close>

text \<open>
  Lines 82-83 and 129-130 of \<open>parser.py\<close>, the same two statements in both parsers:
  \<open>line = line.replace('\r', '')\<close> and \<open>tokens = line[:-1].split('\t')\<close>.
\<close>

definition line_tokens :: "string \<Rightarrow> string list" where
  "line_tokens line =
     (let line = filter (\<lambda>c. c \<noteq> CR) line
      in split_str TAB (butlast line))"

text \<open>
  The body of the loop of \<open>parse_lines_log\<close> at index \<open>ix\<close>. The state is the task
  record and what has been printed so far. A line of at most three tokens prints the
  diagnostic and goes on with the next line. The two \<open>if event == 'THINGS': ...\<close>
  statements have the body \<open>...\<close>, an expression statement that does nothing.
\<close>

definition log_line :: "nat \<Rightarrow> string \<Rightarrow> task \<times> string list \<Rightarrow> task \<times> string list" where
  "log_line ix line st =
     (case st of (task, out) \<Rightarrow>
        let tokens = line_tokens line
        in if length tokens \<le> 3
           then (task, out @ [''Unexpected line length at line '' @ str_nat ix])
           else
             let time = tokens ! 0;
                 frame = tokens ! 1;
                 event = tokens ! 2;
                 subevent = tokens ! 3;
                 task = (if event = ''THINGS'' then task else task);
                 task = (if event = ''THINGS'' then task else task)
             in (task, out))"

fun log_loop :: "nat \<Rightarrow> string list \<Rightarrow> task \<times> string list \<Rightarrow> task \<times> string list" where
  "log_loop ix [] st = st"
| "log_loop ix (line # rest) st = log_loop (Suc ix) rest (log_line ix line st)"

text \<open>
  \<open>parse_lines_log(file_path, task=None)\<close>. The argument is \<open>None\<close> when the caller
  passes no task record. The result is what is raised or returned, with what was printed.
  In \<open>task.session['start_time'] = lines[0].split('\t')[0]\<close> the right-hand side is
  evaluated first, so an empty file raises \<open>IndexError\<close> before \<open>task\<close> is looked at.
  After \<open>fobj.seek(0)\<close> the second \<open>readlines()\<close> reads the same content again.
  The flags and the trial counter of lines 61-65 are never read.
\<close>

definition parse_lines_log ::
  "files \<Rightarrow> string \<Rightarrow> task option \<Rightarrow> (error + task option) \<times> string list" where
  "parse_lines_log fs file_path task_arg =
     (let task = (if \<not> Task_truth then Some Task_new else task_arg)
      in case open_r fs file_path of
           Inl e \<Rightarrow> (Inl e, [])
         | Inr fobj \<Rightarrow>
             (case fobj_readlines fobj of
                Inl e \<Rightarrow> (Inl e, [])
              | Inr lines \<Rightarrow>
                  (if lines = [] then (Inl IndexError, [])
                   else
                     (let v = hd (split_str TAB (hd lines))
                      in (case task of
                            None \<Rightarrow> (Inl AttributeError, [])
                          | Some t \<Rightarrow>
                              (let t = t\<lparr>session := (session t)\<lparr>start_time := Some v\<rparr>\<rparr>;
                                   w = hd (split_str TAB (last lines));
                                   t = t\<lparr>session := (session t)\<lparr>end_time := Some w\<rparr>\<rparr>;
                                   n_lines = length lines
                               in (case fobj_readlines fobj of
                                     Inl e \<Rightarrow> (Inl e, [])
                                   | Inr again \<Rightarrow>
                                       (let res = log_loop 0 again (t, [])
                                        in (Inr (Some (fst res)), snd res)))))))))"

section \<open>The sync parser\<close>

text \<open>
  The body of the loop of \<open>parse_lines_sync\<close>. \<open>task.sync_behavioral\<close> is evaluated
  before the argument of \<open>append\<close>, so with no task record the first statement raises
  \<open>AttributeError\<close>; \<open>tokens[0]\<close> always exists, \<open>tokens[1]\<close> and \<open>tokens[2]\<close> raise
  \<open>IndexError\<close> on a shorter line.
\<close>

definition sync_line :: "string \<Rightarrow> task option \<Rightarrow> error + task option" where
  "sync_line line task =
     (let tokens = line_tokens line
      in case task of
           None \<Rightarrow> Inl AttributeError
         | Some t \<Rightarrow>
             let s = sync_behavioral t;
                 s = s\<lparr>sync_time := sync_time s @ [tokens ! 0]\<rparr>
             in if length tokens \<le> 1 then Inl IndexError
                else
                  let s = s\<lparr>sync_frame := sync_frame s @ [tokens ! 1]\<rparr>
                  in if length tokens \<le> 2 then Inl IndexError
                     else
                       let s = s\<lparr>sync_on_off := sync_on_off s @ [tokens ! 2]\<rparr>
                       in Inr (Some (t\<lparr>sync_behavioral := s\<rparr>)))"

fun sync_loop :: "string list \<Rightarrow> task option \<Rightarrow> error + task option" where
  "sync_loop [] task = Inr task"
| "sync_loop (line # rest) task =
     (case sync_line line task of
        Inl e \<Rightarrow> Inl e
      | Inr task' \<Rightarrow> sync_loop rest task')"

definition parse_lines_sync :: "files \<Rightarrow> string \<Rightarrow> task option \<Rightarrow> error + task option" where
  "parse_lines_sync fs file_path task_arg =
     (let task = (if \<not> Task_truth then Some Task_new else task_arg)
      in case open_r fs file_path of
           Inl e \<Rightarrow> Inl e
         | Inr fobj \<Rightarrow>
             (case fobj_readlines fobj of
                Inl e \<Rightarrow> Inl e
              | Inr lines \<Rightarrow> sync_loop lines task))"

section \<open>The session entry point\<close>

text \<open>
  Names in \<open>parser.py\<close>. The module binds six global names, three by its imports and
  three by its \<open>def\<close>s; reading any other global name raises \<open>NameError\<close>. Inside
  \<open>process_session\<close> the name \<open>task\<close> is assigned, so it is a local variable
  of the function throughout its body, unbound until the first assignment; reading an
  unbound local raises \<open>UnboundLocalError\<close>.
\<close>

datatype pyobj = Class string | Function string | Str string | Bool bool

definition parser_globals :: "string \<rightharpoonup> pyobj" where
  "parser_globals =
     [''Task'' \<mapsto> Class ''Task'',
      ''process_task'' \<mapsto> Function ''process_task'',
      ''print_status'' \<mapsto> Function ''print_status'',
      ''process_session'' \<mapsto> Function ''process_session'',
      ''parse_lines_log'' \<mapsto> Function ''parse_lines_log'',
      ''parse_lines_sync'' \<mapsto> Function ''parse_lines_sync'']"

definition load_global :: "(string \<rightharpoonup> pyobj) \<Rightarrow> string \<Rightarrow> error + pyobj" where
  "load_global g name = (case g name of None \<Rightarrow> Inl NameError | Some v \<Rightarrow> Inr v)"

definition load_local :: "'a option \<Rightarrow> error + 'a" where
  "load_local slot = (case slot of None \<Rightarrow> Inl UnboundLocalError | Some v \<Rightarrow> Inr v)"

text \<open>
  The body of \<open>process_session(file_path_log, process=False)\<close>, run with the local
  \<open>task\<close> in the state \<open>slot\<close> (\<open>None\<close>: unbound) and the globals \<open>g\<close>. The helpers
  \<open>process_task\<close> and \<open>print_status\<close> are imported from modules that are not among
  the sources and are parameters: what \<open>process_task\<close> returns or raises, and what
  \<open>print_status\<close> prints.
\<close>

definition process_session_body ::
  "(task option \<Rightarrow> error + task option) \<Rightarrow> (pyobj \<Rightarrow> string \<Rightarrow> nat \<Rightarrow> string list) \<Rightarrow>
   (string \<rightharpoonup> pyobj) \<Rightarrow> task option option \<Rightarrow> files \<Rightarrow> string \<Rightarrow> bool \<Rightarrow>
   (error + task option) \<times> string list" where
  "process_session_body process_task print_status g slot fs file_path_log process =
     (case load_local slot of
        Inl e \<Rightarrow> (Inl e, [])
      | Inr task \<Rightarrow>
          (let task = (if task = None then Some Task_new else task)
           in (case load_global g ''file_path'' of
                 Inl e \<Rightarrow> (Inl e, [])
               | Inr (Str file_path) \<Rightarrow>
                   (case parse_lines_log fs file_path None of
                      (Inl e, out) \<Rightarrow> (Inl e, out)
                    | (Inr task, out) \<Rightarrow>
                        (case load_global g ''verbose'' of
                           Inl e \<Rightarrow> (Inl e, out)
                         | Inr verbose \<Rightarrow>
                             (let out = out @ print_status verbose ''parsing completed...'' 1
                              in if process
                                 then (case process_task task of
                                         Inl e \<Rightarrow> (Inl e, out)
                                       | Inr task \<Rightarrow> (Inr task, out))
                                 else (Inr task, out))))
               | Inr _ \<Rightarrow> (Inl TypeError, []))))"

text \<open>A call of \<open>process_session\<close>: the body entered with \<open>task\<close> unbound.\<close>

definition process_session ::
  "(task option \<Rightarrow> error + task option) \<Rightarrow> (pyobj \<Rightarrow> string \<Rightarrow> nat \<Rightarrow> string list) \<Rightarrow>
   files \<Rightarrow> string \<Rightarrow> bool \<Rightarrow> (error + task option) \<times> string list" where
  "process_session process_task print_status fs file_path_log process =
     process_session_body process_task print_status parser_globals None fs file_path_log process"

section \<open>The conversion scripts\<close>

record settings =
  VERBOSE :: bool
  ADD_LFP :: bool
  CHANGE_TIME_UNIT :: bool
  RESET_TIME :: bool
  DROP_BEFORE_TASK :: bool
  SKIP_ALREADY_RUN :: bool

record session_id =
  SUBJECT :: string
  EXPERIMENT :: string
  SESSION :: string

record skip_lists =
  SUBJECTS :: "string list"
  SESSIONS :: "string list"

text \<open>
  What the scripts do that can be observed from outside, in order: the calls of
  \<open>print_status\<close> with their arguments, the calls of the two steps of the pipeline,
  and what the remainder of \<open>convert_data\<close> writes.
\<close>

datatype event =
    Status bool string nat
  | Call_prepare_data session_id
  | Call_convert_data session_id
  | Output string

text \<open>
  The helpers of \<open>conv.io\<close> and \<open>conv.utils\<close>, the script \<open>prepare_data.py\<close> and
  the settings are not among the sources; they are parameters, taken to return:
  \<^item> \<open>make_session_name\<close>, the name of a session from subject, experiment and session;
  \<^item> the lists that the calls of \<open>get_files\<close> return;
  \<^item> \<open>load_task_obj\<close> and \<open>load_config\<close>, by session name, \<open>None\<close> standing for a
    result that is false (what \<open>assert\<close> tests);
  \<^item> \<open>prepare_data\<close>, with the exception it raises, if any.
\<close>

record 'm world =
  make_session_name :: "string \<Rightarrow> string \<Rightarrow> string \<Rightarrow> string"
  get_files_recordings :: "string list"
  get_files_sessions :: "string \<Rightarrow> string \<Rightarrow> string list"
  get_files_nwb :: "string list"
  get_files_spikes :: "session_id \<Rightarrow> string list"
  get_files_lfp :: "session_id \<Rightarrow> string list"
  load_task_obj :: "string \<Rightarrow> task option"
  load_config :: "string \<Rightarrow> 'm option"
  prepare_data :: "session_id \<Rightarrow> settings \<Rightarrow> error option"

text \<open>
  Lines 59-283 of \<open>convert_data.py\<close> are the part of the template that is left to be
  filled in. As it is written it is not Python: line 157 reads
  \<open>nwbfile.add_trial(start_time=task...,\<close> and line 158 is a positional \<open>...\<close>
  after a keyword argument, so compiling the module raises \<open>SyntaxError\<close> and no
  statement of it ever runs. (The other placeholders of the repository, such as
  \<open>channel = ...\<close>, are expressions.) The remainder is therefore either the
  placeholders as written, or filled in; when filled in it is a parameter: what it raises
  and what it writes, given the session, the settings, the loaded task record and
  metadata, and the two file lists.
\<close>

type_synonym 'm remainder_fun =
  "session_id \<Rightarrow> settings \<Rightarrow> task \<Rightarrow> 'm \<Rightarrow> string list \<Rightarrow> string list option \<Rightarrow>
   (error + unit) \<times> string list"

datatype 'm remainder = Placeholders | Filled "'m remainder_fun"

text \<open>
  \<open>from convert_data import convert_data\<close>, and likewise running \<open>convert_data.py\<close>:
  the module is compiled first.
\<close>

definition import_convert_data :: "'m remainder \<Rightarrow> error + 'm remainder_fun" where
  "import_convert_data rem =
     (case rem of
        Placeholders \<Rightarrow> Inl SyntaxError
      | Filled fill \<Rightarrow> Inr fill)"

text \<open>Sequencing: what follows a statement that raised is not run.\<close>

definition and_then ::
  "(error + unit) \<times> event list \<Rightarrow> (error + unit) \<times> event list \<Rightarrow> (error + unit) \<times> event list" where
  "and_then a b =
     (case fst a of
        Inl e \<Rightarrow> (Inl e, snd a)
      | Inr _ \<Rightarrow> (fst b, snd a @ snd b))"

text \<open>
  The body of \<open>convert_data(SESSION, SETTINGS)\<close> in a module that compiled, with
  \<open>fill\<close> what its lines 59-283 do: lines 24-57 are the status line, then the loads
  and the four \<open>assert\<close> statements.
\<close>

definition convert_data ::
  "'m world \<Rightarrow> 'm remainder_fun \<Rightarrow> session_id \<Rightarrow> settings \<Rightarrow> (error + unit) \<times> event list" where
  "convert_data w fill S St =
     (let session_name = make_session_name w (SUBJECT S) (EXPERIMENT S) (SESSION S);
          evs = [Call_convert_data S,
                 Status (VERBOSE St) (''Converting data for: '' @ session_name) 0]
      in (case load_task_obj w session_name of
            None \<Rightarrow> (Inl AssertionError, evs)
          | Some task \<Rightarrow>
              (case load_config w session_name of
                 None \<Rightarrow> (Inl AssertionError, evs)
               | Some metadata \<Rightarrow>
                   (let spike_files = get_files_spikes w S
                    in if length spike_files = 0 then (Inl AssertionError, evs)
                       else if ADD_LFP St \<and> get_files_lfp w S = [] then (Inl AssertionError, evs)
                       else
                         (let lfp_files = (if ADD_LFP St then Some (get_files_lfp w S) else None);
                              r = fill S St task metadata spike_files lfp_files
                          in and_then (Inr (), evs) (fst r, map Output (snd r)))))))"

text \<open>
  \<open>run_all_conversions()\<close>, in a script whose imports succeeded, \<open>fill\<close> being the
  remainder of the imported \<open>convert_data\<close>. The dictionary \<open>all_sessions\<close> is filled in the order of
  \<open>subjects\<close>; storing under a key that is already there keeps the key's place.
\<close>

definition all_sessions :: "'m world \<Rightarrow> string \<Rightarrow> (string \<times> string list) list" where
  "all_sessions w experiment =
     foldl (\<lambda>d subject. AList.update subject (get_files_sessions w subject experiment) d)
       [] (get_files_recordings w)"

fun session_loop ::
  "'m world \<Rightarrow> 'm remainder_fun \<Rightarrow> settings \<Rightarrow> skip_lists \<Rightarrow> string \<Rightarrow> string list \<Rightarrow> string \<Rightarrow> string list \<Rightarrow>
   (error + unit) \<times> event list" where
  "session_loop w fill St skip experiment converted subject [] = (Inr (), [])"
| "session_loop w fill St skip experiment converted subject (sess # rest) =
     (let S = \<lparr>SUBJECT = subject, EXPERIMENT = experiment, SESSION = sess\<rparr>;
          session_name = make_session_name w (SUBJECT S) (EXPERIMENT S) (SESSION S)
      in if session_name \<in> set (SESSIONS skip)
         then and_then
                (Inr (), [Status (VERBOSE St) (''SKIPPING SESSION: '' @ [TAB] @ session_name) 0])
                (session_loop w fill St skip experiment converted subject rest)
         else if SKIP_ALREADY_RUN St \<and> session_name @ ''.nwb'' \<in> set converted
         then and_then
                (Inr (), [Status (VERBOSE St) (''SESSION ALREADY RUN: '' @ [TAB] @ session_name) 0])
                (session_loop w fill St skip experiment converted subject rest)
         else and_then
                (case prepare_data w S St of
                   Some e \<Rightarrow> (Inl e, [Call_prepare_data S])
                 | None \<Rightarrow> (Inr (), [Call_prepare_data S]))
                (and_then (convert_data w fill S St)
                   (session_loop w fill St skip experiment converted subject rest)))"

fun subject_loop ::
  "'m world \<Rightarrow> 'm remainder_fun \<Rightarrow> settings \<Rightarrow> skip_lists \<Rightarrow> string \<Rightarrow> string list \<Rightarrow> (string \<times> string list) list \<Rightarrow>
   (error + unit) \<times> event list" where
  "subject_loop w fill St skip experiment converted [] = (Inr (), [])"
| "subject_loop w fill St skip experiment converted ((subject, sessions) # rest) =
     (if subject \<in> set (SUBJECTS skip)
      then and_then
             (Inr (), [Status (VERBOSE St) (''SKIPPING SUBJECT: '' @ [TAB] @ subject) 0])
             (subject_loop w fill St skip experiment converted rest)
      else and_then
             (session_loop w fill St skip experiment converted subject sessions)
             (subject_loop w fill St skip experiment converted rest))"

definition run_all_conversions ::
  "'m world \<Rightarrow> 'm remainder_fun \<Rightarrow> settings \<Rightarrow> skip_lists \<Rightarrow> string \<Rightarrow> (error + unit) \<times> event list" where
  "run_all_conversions w fill St skip experiment =
     (let msg = [LF, LF] @ ''RUNNING ALL CONVERSIONS FOR - '' @ experiment @ [LF, LF];
          converted = get_files_nwb w
      in and_then (Inr (), [Status (VERBOSE St) msg 0])
           (and_then (subject_loop w fill St skip experiment converted (all_sessions w experiment))
              (let msg = [LF, LF] @ '' FINISHED CONVERSIONS FOR - '' @ experiment @ [LF, LF]
               in (Inr (), [Status (VERBOSE St) msg 0]))))"


definition run_all_conversion_script ::
  "'m remainder \<Rightarrow> 'm world \<Rightarrow> settings \<Rightarrow> skip_lists \<Rightarrow> string \<Rightarrow> (error + unit) \<times> event list" where
  "run_all_conversion_script rem w St skip experiment =
     (case import_convert_data rem of
        Inl e \<Rightarrow> (Inl e, [])
      | Inr fill \<Rightarrow> run_all_conversions w fill St skip experiment)"

section \<open>Notions used in the statements\<close>

text \<open>A required input of \<open>convert_data\<close> is missing.\<close>

definition missing_input :: "'m world \<Rightarrow> session_id \<Rightarrow> settings \<Rightarrow> bool" where
  "missing_input w S St =
     (let session_name = make_session_name w (SUBJECT S) (EXPERIMENT S) (SESSION S)
      in load_task_obj w session_name = None \<or> load_config w session_name = None \<or>
         get_files_spikes w S = [] \<or> (ADD_LFP St \<and> get_files_lfp w S = []))"

text \<open>The sessions for which each step of the pipeline was called, in order.\<close>

fun prepare_calls :: "event list \<Rightarrow> session_id list" where
  "prepare_calls [] = []"
| "prepare_calls (Call_prepare_data S # evs) = S # prepare_calls evs"
| "prepare_calls (_ # evs) = prepare_calls evs"

fun convert_calls :: "event list \<Rightarrow> session_id list" where
  "convert_calls [] = []"
| "convert_calls (Call_convert_data S # evs) = S # convert_calls evs"
| "convert_calls (_ # evs) = convert_calls evs"

text \<open>
  The enumerated pairs of subject and session, and the pairs among them that are not to
  be skipped, as the specification words it: the subject is not in the list of subjects
  to skip, the session name is not in the list of sessions to skip, and it is not the
  case that \<open>SKIP_ALREADY_RUN\<close> is set with the name of the session's output file
  among the converted files.
\<close>

definition enumerated :: "'m world \<Rightarrow> string \<Rightarrow> (string \<times> string) list" where
  "enumerated w experiment =
     concat (map (\<lambda>(subject, sessions). map (\<lambda>sess. (subject, sess)) sessions)
               (all_sessions w experiment))"

definition to_run :: "'m world \<Rightarrow> settings \<Rightarrow> skip_lists \<Rightarrow> string \<Rightarrow> string \<times> string \<Rightarrow> bool" where
  "to_run w St skip experiment p =
     (case p of (subject, sess) \<Rightarrow>
        subject \<notin> set (SUBJECTS skip) \<and>
        make_session_name w subject experiment sess \<notin> set (SESSIONS skip) \<and>
        \<not> (SKIP_ALREADY_RUN St \<and>
           make_session_name w subject experiment sess @ ''.nwb'' \<in> set (get_files_nwb w)))"

definition session_of :: "string \<Rightarrow> string \<times> string \<Rightarrow> session_id" where
  "session_of experiment p =
     (case p of (subject, sess) \<Rightarrow>
        \<lparr>SUBJECT = subject, EXPERIMENT = experiment, SESSION = sess\<rparr>)"

text \<open>The diagnostic that the log parser prints for the line of index \<open>ix\<close>.\<close>

definition diagnostic :: "nat \<Rightarrow> string" where
  "diagnostic ix = ''Unexpected line length at line '' @ str_nat ix"

text \<open>
  The log of the specification's end-to-end example, two position lines, with the lines
  that \<open>readlines\<close> cuts it into; a log whose first and last lines are malformed; and
  a sync file of two lines, the first ending in \<open>\r\n\<close>.
\<close>

definition example_log :: string where
  "example_log =
     ''0'' @ [TAB] @ ''1'' @ [TAB] @ ''POSITION'' @ [TAB] @ ''0'' @ [TAB] @ ''1.0'' @ [TAB] @ ''2.0'' @ [LF] @
     ''100'' @ [TAB] @ ''2'' @ [TAB] @ ''POSITION'' @ [TAB] @ ''0'' @ [TAB] @ ''1.5'' @ [TAB] @ ''2.5'' @ [LF]"

definition example_log_lines :: "string list" where
  "example_log_lines =
     [''0'' @ [TAB] @ ''1'' @ [TAB] @ ''POSITION'' @ [TAB] @ ''0'' @ [TAB] @ ''1.0'' @ [TAB] @ ''2.0'' @ [LF],
      ''100'' @ [TAB] @ ''2'' @ [TAB] @ ''POSITION'' @ [TAB] @ ''0'' @ [TAB] @ ''1.5'' @ [TAB] @ ''2.5'' @ [LF]]"

definition example_mixed_log :: string where
  "example_mixed_log =
     ''oops'' @ [LF] @
     ''0'' @ [TAB] @ ''1'' @ [TAB] @ ''A'' @ [TAB] @ ''B'' @ [LF] @
     ''bad'' @ [TAB] @ ''line'' @ [LF]"

definition example_sync :: string where
  "example_sync =
     ''10'' @ [TAB] @ ''1'' @ [TAB] @ ''on'' @ [CR, LF] @
     ''20'' @ [TAB] @ ''2'' @ [TAB] @ ''off'' @ [LF]"

text \<open>
  What a run of the batch comes to for a list of sessions that are to run, in the words
  of the amended claim on the batch: the two steps of the pipeline are called for the sessions in
  order until a call raises. The result is what the run raises or returns, the sessions
  for which \<open>prepare_data\<close> was called and those for which \<open>convert_data\<close> was.
\<close>

fun batch_spec ::
  "'m world \<Rightarrow> 'm remainder_fun \<Rightarrow> settings \<Rightarrow> session_id list \<Rightarrow>
   (error + unit) \<times> session_id list \<times> session_id list" where
  "batch_spec w fill St [] = (Inr (), [], [])"
| "batch_spec w fill St (S # Ss) =
     (case prepare_data w S St of
        Some e \<Rightarrow> (Inl e, [S], [])
      | None \<Rightarrow>
          (case fst (convert_data w fill S St) of
             Inl e \<Rightarrow> (Inl e, [S], [S])
           | Inr _ \<Rightarrow>
               (case batch_spec w fill St Ss of
                  (r, ps, cs) \<Rightarrow> (r, S # ps, S # cs))))"

text \<open>The same three things read off a run.\<close>

definition summary :: "(error + unit) \<times> event list \<Rightarrow> (error + unit) \<times> session_id list \<times> session_id list" where
  "summary r = (fst r, prepare_calls (snd r), convert_calls (snd r))"

text \<open>
  The last two events of a call of \<open>convert_data\<close> that an \<open>assert\<close> stops: the call
  and its status line.
\<close>

definition stopped_call :: "'m world \<Rightarrow> settings \<Rightarrow> session_id \<Rightarrow> event list" where
  "stopped_call w St S =
     [Call_convert_data S,
      Status (VERBOSE St)
        (''Converting data for: '' @ make_session_name w (SUBJECT S) (EXPERIMENT S) (SESSION S)) 0]"

text \<open>
  A run halts at the session \<open>S\<close>: if \<open>convert_data\<close> was called for \<open>S\<close>, the run
  raised \<open>AssertionError\<close> and that stopped call is the last thing it did.
\<close>

definition halts_at ::
  "'m world \<Rightarrow> settings \<Rightarrow> session_id \<Rightarrow> (error + unit) \<times> event list \<Rightarrow> bool" where
  "halts_at w St S r =
     (Call_convert_data S \<in> set (snd r) \<longrightarrow>
        fst r = Inl AssertionError \<and> (\<exists>pre. snd r = pre @ stopped_call w St S))"

text \<open>
  A directory layout for examples: two subjects with two sessions each, the first
  session of the first subject already converted, and no spike file for the second
  subject; then a remainder of \<open>convert_data\<close> that writes one file and returns.
\<close>

definition example_world :: "unit world" where
  "example_world =
     \<lparr> make_session_name = (\<lambda>subject experiment sess. subject @ ''_'' @ experiment @ ''_'' @ sess),
       get_files_recordings = [''sub1'', ''sub2''],
       get_files_sessions = (\<lambda>subject experiment. [''s0'', ''s1'']),
       get_files_nwb = [''sub1_exp_s0.nwb''],
       get_files_spikes = (\<lambda>S. if SUBJECT S = ''sub1'' then [''spikes.h5''] else []),
       get_files_lfp = (\<lambda>S. []),
       load_task_obj = (\<lambda>name. Some Task_new),
       load_config = (\<lambda>name. Some ()),
       prepare_data = (\<lambda>S St. None) \<rparr>"

definition example_fill :: "unit remainder_fun" where
  "example_fill = (\<lambda>S St t m spikes lfp. (Inr (), [''saved'']))"

text \<open>
  A remainder that raises before it writes anything, as one does that keeps the
  template's \<open>for stim in stimuli\<close> with \<open>stimuli\<close> unbound.
\<close>

definition example_fill_unbound :: "unit remainder_fun" where
  "example_fill_unbound = (\<lambda>S St t m spikes lfp. (Inl NameError, []))"

definition example_settings :: settings where
  "example_settings =
     \<lparr> VERBOSE = True, ADD_LFP = False, CHANGE_TIME_UNIT = False, RESET_TIME = False,
       DROP_BEFORE_TASK = False, SKIP_ALREADY_RUN = True \<rparr>"

section \<open>Splitting and reading lines\<close>

lemma split_str_nonempty: "split_str sep s \<noteq> []"
  by (induction s) (auto simp: Let_def)

lemma length_split_str: "length (split_str sep s) = Suc (length (filter (\<lambda>c. c = sep) s))"
  by (induction s) (auto simp: Let_def split_str_nonempty)

lemma hd_split_str: "hd (split_str sep s) = takeWhile (\<lambda>c. c \<noteq> sep) s"
  by (induction s) (auto simp: Let_def)

lemma last_field_nonempty:
  assumes "s \<noteq> []" and "last s \<noteq> sep"
  shows "last (split_str sep s) \<noteq> []"
  using assms
proof (induction s)
  case Nil
  then show ?case by simp
next
  case (Cons c s)
  obtain f fs where r: "split_str sep s = f # fs"
    using split_str_nonempty [of sep s] by (cases "split_str sep s") auto
  show ?case
  proof (cases "s = []")
    case True
    with Cons.prems show ?thesis by simp
  next
    case False
    with Cons.prems Cons.IH r show ?thesis by (auto simp: Let_def)
  qed
qed

lemma split_str_butlast:
  assumes "s \<noteq> []" and "last s \<noteq> sep"
  shows "split_str sep (butlast s) =
         butlast (split_str sep s) @ [butlast (last (split_str sep s))]"
  using assms
proof (induction s)
  case Nil
  then show ?case by simp
next
  case (Cons c s)
  show ?case
  proof (cases "s = []")
    case True
    with Cons.prems show ?thesis by simp
  next
    case False
    with Cons.prems have l: "last s \<noteq> sep" by simp
    note ih = Cons.IH [OF False l]
    obtain f fs where r: "split_str sep s = f # fs"
      using split_str_nonempty [of sep s] by (cases "split_str sep s") auto
    have ne: "last (f # fs) \<noteq> []"
      using last_field_nonempty [OF False l] r by simp
    show ?thesis
    proof (cases "c = sep")
      case True
      with False ih r show ?thesis by (simp add: Let_def)
    next
      case c: False
      show ?thesis
      proof (cases "fs = []")
        case True
        with False ih r c ne show ?thesis by (simp add: Let_def)
      next
        case fs: False
        with False ih r c show ?thesis by (simp add: Let_def)
      qed
    qed
  qed
qed

lemma split_str_two:
  assumes "s \<noteq> []" and "last s = sep"
  shows "tl (split_str sep s) \<noteq> []"
  using assms
proof (induction s)
  case Nil
  then show ?case by simp
next
  case (Cons c s)
  show ?case
  proof (cases "s = []")
    case True
    with Cons.prems show ?thesis by simp
  next
    case False
    with Cons.prems Cons.IH have "tl (split_str sep s) \<noteq> []"
      by simp
    then show ?thesis
      using split_str_nonempty [of sep s] by (simp add: Let_def)
  qed
qed

lemma split_str_butlast_sep:
  assumes "s \<noteq> []" and "last s = sep"
  shows "split_str sep (butlast s) = butlast (split_str sep s)"
  using assms
proof (induction s)
  case Nil
  then show ?case by simp
next
  case (Cons c s)
  show ?case
  proof (cases "s = []")
    case True
    with Cons.prems show ?thesis by simp
  next
    case False
    with Cons.prems have l: "last s = sep"
      by simp
    note ih = Cons.IH [OF False l]
    have two: "tl (split_str sep s) \<noteq> []"
      by (rule split_str_two [OF False l])
    obtain f g fs where r: "split_str sep s = f # g # fs"
      using two split_str_nonempty [of sep s]
      by (cases "split_str sep s"; cases "tl (split_str sep s)") auto
    show ?thesis
      using False ih r by (simp add: Let_def)
  qed
qed

lemma readlines_no_empty: "[] \<notin> set (readlines s)"
  by (induction s) (auto split: list.splits)

lemma length_filter_butlast: "length (filter P (butlast s)) \<le> length (filter P s)"
  by (induction s) auto

lemma line_tokens_le_fields: "length (line_tokens l) \<le> length (split_str TAB l)"
proof -
  have "length (filter (\<lambda>c. c = TAB) (butlast (filter (\<lambda>c. c \<noteq> CR) l)))
        \<le> length (filter (\<lambda>c. c = TAB) (filter (\<lambda>c. c \<noteq> CR) l))"
    by (rule length_filter_butlast)
  also have "\<dots> \<le> length (filter (\<lambda>c. c = TAB) l)"
    by (induction l) auto
  finally show ?thesis
    by (simp add: line_tokens_def length_split_str)
qed

section \<open>Properties of the log parser\<close>

lemma log_line_eq:
  "log_line ix line (t, out) =
     (t, if length (line_tokens line) \<le> 3 then out @ [diagnostic ix] else out)"
  by (simp add: log_line_def Let_def diagnostic_def)

lemma log_loop_eq:
  "log_loop ix ls (t, out) =
     (t, out @ map (\<lambda>i. diagnostic (ix + i))
                 (filter (\<lambda>i. length (line_tokens (ls ! i)) \<le> 3) [0..<length ls]))"
proof (induction ls arbitrary: ix out)
  case Nil
  show ?case by simp
next
  case (Cons l ls)
  have up: "[0..<length (l # ls)] = 0 # map Suc [0..<length ls]"
    by (simp add: upt_conv_Cons map_Suc_upt del: upt_Suc)
  show ?case
    unfolding up
    by (simp add: log_line_eq Cons.IH filter_map comp_def del: upt_Suc)
qed

lemma universal_newlines_Nil: "universal_newlines raw = [] \<longleftrightarrow> raw = []"
  by (induction raw rule: universal_newlines.induct) auto

lemma readlines_Nil: "readlines s = [] \<longleftrightarrow> s = []"
  by (cases s) (auto split: list.splits)

lemma parse_lines_log_eq:
  assumes "fs file_path = Some (Decodes raw)" and "raw \<noteq> []"
  shows "parse_lines_log fs file_path (Some t) =
     (let lines = readlines (universal_newlines raw)
      in (Inr (Some (t\<lparr>session := (session t)
                 \<lparr>start_time := Some (hd (split_str TAB (hd lines))),
                  end_time := Some (hd (split_str TAB (last lines)))\<rparr>\<rparr>)),
          map diagnostic (filter (\<lambda>i. length (line_tokens (lines ! i)) \<le> 3) [0..<length lines])))"
  using assms
  by (simp add: parse_lines_log_def open_r_def fobj_readlines_def Task_truth_def Let_def readlines_Nil
      universal_newlines_Nil log_loop_eq)

lemma undecodable_raises:
  assumes "fs file_path = Some Undecodable"
  shows "parse_lines_log fs file_path task = (Inl UnicodeDecodeError, [])"
    and "parse_lines_sync fs file_path task = Inl UnicodeDecodeError"
  using assms
  by (simp_all add: parse_lines_log_def parse_lines_sync_def open_r_def fobj_readlines_def)

lemma CR_universal_newlines: "CR \<notin> set (universal_newlines raw)"
  by (induction raw rule: universal_newlines.induct) (auto simp: CR_def LF_def)

lemma concat_readlines: "concat (readlines s) = s"
  by (induction s) (auto split: list.splits)

lemma readlines_no_CR:
  assumes "l \<in> set (readlines (universal_newlines raw))"
  shows "CR \<notin> set l"
proof -
  have "set l \<subseteq> set (concat (readlines (universal_newlines raw)))"
    using assms by auto
  then show ?thesis
    using CR_universal_newlines [of raw] by (auto simp: concat_readlines)
qed

lemma takeWhile_butlast:
  assumes "\<exists>x \<in> set (butlast l). \<not> P x"
  shows "takeWhile P (butlast l) = takeWhile P l"
  using assms
proof (induction l)
  case Nil
  then show ?case by simp
next
  case (Cons a l)
  then show ?case by (cases "l = []") auto
qed

lemma first_field_token:
  assumes "CR \<notin> set l" and "2 \<le> length (line_tokens l)"
  shows "hd (split_str TAB l) = line_tokens l ! 0"
proof -
  have f: "filter (\<lambda>c. c \<noteq> CR) l = l"
    using assms(1) by (induction l) auto
  have "filter (\<lambda>c. c = TAB) (butlast l) \<noteq> []"
    using assms(2) by (auto simp: line_tokens_def f length_split_str)
  then have "\<exists>x \<in> set (butlast l). \<not> x \<noteq> TAB"
    by (metis (mono_tags, lifting) filter_False)
  then have "takeWhile (\<lambda>c. c \<noteq> TAB) (butlast l) = takeWhile (\<lambda>c. c \<noteq> TAB) l"
    by (rule takeWhile_butlast)
  then show ?thesis
    by (simp add: line_tokens_def f hd_split_str [symmetric] hd_conv_nth split_str_nonempty)
qed

lemma sync_line_eq:
  assumes "3 \<le> length (line_tokens l)"
  shows "sync_line l (Some t) =
     Inr (Some (t\<lparr>sync_behavioral := (sync_behavioral t)
        \<lparr>sync_time := sync_time (sync_behavioral t) @ [line_tokens l ! 0],
         sync_frame := sync_frame (sync_behavioral t) @ [line_tokens l ! 1],
         sync_on_off := sync_on_off (sync_behavioral t) @ [line_tokens l ! 2]\<rparr>\<rparr>))"
  using assms by (simp add: sync_line_def Let_def)

lemma sync_loop_eq:
  assumes "\<forall>l \<in> set ls. 3 \<le> length (line_tokens l)"
  shows "sync_loop ls (Some t) =
     Inr (Some (t\<lparr>sync_behavioral := (sync_behavioral t)
        \<lparr>sync_time := sync_time (sync_behavioral t) @ map (\<lambda>l. line_tokens l ! 0) ls,
         sync_frame := sync_frame (sync_behavioral t) @ map (\<lambda>l. line_tokens l ! 1) ls,
         sync_on_off := sync_on_off (sync_behavioral t) @ map (\<lambda>l. line_tokens l ! 2) ls\<rparr>\<rparr>))"
  using assms
proof (induction ls arbitrary: t)
  case Nil
  show ?case by simp
next
  case (Cons l ls)
  then have l: "3 \<le> length (line_tokens l)" and ls: "\<forall>l \<in> set ls. 3 \<le> length (line_tokens l)"
    by simp_all
  show ?case
    by (simp add: sync_line_eq [OF l] Cons.IH [OF ls])
qed

text \<open>
  Claim C1. For a log file of at least one line whose lines all have at least four
  tab-separated tokens, \<open>parse_lines_log\<close>, given a task record, returns it with the
  session's \<open>start_time\<close> equal to the first tab-separated field of the first line and
  its \<open>end_time\<close> equal to the first tab-separated field of the last line; these fields
  are the timestamp tokens that the loop reads from those lines.
\<close>

theorem parse_lines_log_session_times:
  assumes "fs file_path = Some (Decodes raw)"
    and "lines = readlines (universal_newlines raw)"
    and "lines \<noteq> []"
    and "\<forall>l \<in> set lines. 3 < length (line_tokens l)"
  shows "\<exists>t' out. parse_lines_log fs file_path (Some t) = (Inr (Some t'), out) \<and>
           start_time (session t') = Some (hd (split_str TAB (hd lines))) \<and>
           end_time (session t') = Some (hd (split_str TAB (last lines))) \<and>
           hd (split_str TAB (hd lines)) = line_tokens (hd lines) ! 0 \<and>
           hd (split_str TAB (last lines)) = line_tokens (last lines) ! 0"
proof -
  have raw: "raw \<noteq> []"
    using assms(2,3) by auto
  have first: "hd lines \<in> set lines" and final: "last lines \<in> set lines"
    using assms(3) by simp_all
  have a: "hd (split_str TAB (hd lines)) = line_tokens (hd lines) ! 0"
    using first assms(2,4) readlines_no_CR [of "hd lines" raw]
    by (intro first_field_token) auto
  have b: "hd (split_str TAB (last lines)) = line_tokens (last lines) ! 0"
    using final assms(2,4) readlines_no_CR [of "last lines" raw]
    by (intro first_field_token) auto
  let ?t = "t\<lparr>session := (session t)
                 \<lparr>start_time := Some (hd (split_str TAB (hd lines))),
                  end_time := Some (hd (split_str TAB (last lines)))\<rparr>\<rparr>"
  let ?out = "map diagnostic (filter (\<lambda>i. length (line_tokens (lines ! i)) \<le> 3) [0..<length lines])"
  have "parse_lines_log fs file_path (Some t) = (Inr (Some ?t), ?out)"
    unfolding parse_lines_log_eq [of fs file_path raw t, OF assms(1) raw] Let_def assms(2) ..
  moreover have "start_time (session ?t) = Some (hd (split_str TAB (hd lines)))"
    by simp
  moreover have "end_time (session ?t) = Some (hd (split_str TAB (last lines)))"
    by simp
  ultimately show ?thesis
    using a b by blast
qed

lemma readlines_example_log:
  "readlines (universal_newlines example_log) = example_log_lines"
  by (simp add: example_log_def example_log_lines_def TAB_def LF_def CR_def)

lemma example_log_tokens:
  "map line_tokens example_log_lines =
     [[''0'', ''1'', ''POSITION'', ''0'', ''1.0'', ''2.0''],
      [''100'', ''2'', ''POSITION'', ''0'', ''1.5'', ''2.5'']]"
  by (simp add: example_log_lines_def line_tokens_def TAB_def LF_def CR_def)


theorem parse_lines_log_session_times_witness:
  "\<exists>t' out. parse_lines_log [''log'' \<mapsto> Decodes example_log] ''log'' (Some Task_new) = (Inr (Some t'), out) \<and>
     start_time (session t') = Some ''0'' \<and> end_time (session t') = Some ''100''"
proof -
  have h: "\<forall>l \<in> set example_log_lines. 3 < length (line_tokens l)"
    by (simp add: example_log_lines_def line_tokens_def TAB_def LF_def CR_def)
  have n: "example_log_lines \<noteq> []"
    by (simp add: example_log_lines_def)
  have f: "[''log'' \<mapsto> Decodes example_log] ''log'' = Some (Decodes example_log)"
    by simp
  have a: "line_tokens (hd example_log_lines) ! 0 = ''0''"
    by (simp add: example_log_lines_def line_tokens_def TAB_def LF_def CR_def)
  have b: "line_tokens (last example_log_lines) ! 0 = ''100''"
    by (simp add: example_log_lines_def line_tokens_def TAB_def LF_def CR_def)
  show ?thesis
    using parse_lines_log_session_times
      [of "[''log'' \<mapsto> Decodes example_log]" "''log''" example_log example_log_lines Task_new,
        OF f readlines_example_log [symmetric] n h]
    unfolding a b by metis
qed

text \<open>
  Claim C2. In a log file read with a task record, a line of fewer than four
  tab-separated fields (counted on the line as read, or on its tokens) makes
  \<open>parse_lines_log\<close> print the diagnostic with the index of the line. The call does
  not raise and goes on through the remaining lines: what is printed is one diagnostic
  for each such line, in the order of the file, and nothing for any other line. The
  record returned has nothing added to its trials or streams; its only fields that are
  set are the two session times, which are taken from the first and the last line
  before the loop, also when that line is malformed.
\<close>

theorem malformed_line_skipped:
  assumes "fs file_path = Some (Decodes raw)"
    and "lines = readlines (universal_newlines raw)"
    and "i < length lines"
    and "length (split_str TAB (lines ! i)) < 4 \<or> length (line_tokens (lines ! i)) < 4"
  shows "parse_lines_log fs file_path (Some t) =
           (Inr (Some (t\<lparr>session := (session t)
                   \<lparr>start_time := Some (hd (split_str TAB (hd lines))),
                    end_time := Some (hd (split_str TAB (last lines)))\<rparr>\<rparr>)),
            map diagnostic
              (filter (\<lambda>j. length (line_tokens (lines ! j)) < 4) [0..<length lines])) \<and>
         diagnostic i \<in> set (snd (parse_lines_log fs file_path (Some t)))"
proof -
  have raw: "raw \<noteq> []"
    using assms(2,3) by auto
  have p: "(x \<le> (3::nat)) = (x < 4)" for x
    by auto
  have eq: "parse_lines_log fs file_path (Some t) =
           (Inr (Some (t\<lparr>session := (session t)
                   \<lparr>start_time := Some (hd (split_str TAB (hd lines))),
                    end_time := Some (hd (split_str TAB (last lines)))\<rparr>\<rparr>)),
            map diagnostic
              (filter (\<lambda>j. length (line_tokens (lines ! j)) < 4) [0..<length lines]))"
    unfolding parse_lines_log_eq [of fs file_path raw t, OF assms(1) raw] Let_def assms(2) p ..
  have "length (line_tokens (lines ! i)) < 4"
    using assms(4) line_tokens_le_fields [of "lines ! i"] by auto
  then have "i \<in> set (filter (\<lambda>j. length (line_tokens (lines ! j)) < 4) [0..<length lines])"
    using assms(3) by simp
  then have "diagnostic i \<in> set (snd (parse_lines_log fs file_path (Some t)))"
    unfolding eq snd_conv by (simp del: set_filter)
  with eq show ?thesis
    by blast
qed

lemma example_mixed_log_lines:
  "readlines (universal_newlines example_mixed_log) =
     [''oops'' @ [LF],
      ''0'' @ [TAB] @ ''1'' @ [TAB] @ ''A'' @ [TAB] @ ''B'' @ [LF],
      ''bad'' @ [TAB] @ ''line'' @ [LF]]"
  by (simp add: example_mixed_log_def TAB_def LF_def CR_def)

theorem malformed_line_skipped_witness:
  "parse_lines_log [''log'' \<mapsto> Decodes example_mixed_log] ''log'' (Some Task_new) =
     (Inr (Some (Task_new\<lparr>session :=
              \<lparr>start_time = Some (''oops'' @ [LF]), end_time = Some ''bad''\<rparr>\<rparr>)),
      [''Unexpected line length at line 0'', ''Unexpected line length at line 2''])"
proof -
  let ?l0 = "''oops'' @ [LF]"
  let ?l1 = "''0'' @ [TAB] @ ''1'' @ [TAB] @ ''A'' @ [TAB] @ ''B'' @ [LF]"
  let ?l2 = "''bad'' @ [TAB] @ ''line'' @ [LF]"
  have f: "[''log'' \<mapsto> Decodes example_mixed_log] ''log'' = Some (Decodes example_mixed_log)"
    by simp
  have i: "2 < length [?l0, ?l1, ?l2]"
    by simp
  have n2: "[?l0, ?l1, ?l2] ! 2 = ?l2"
    by simp
  have m: "length (split_str TAB ([?l0, ?l1, ?l2] ! 2)) < 4"
    unfolding n2 by (simp add: TAB_def LF_def)
  have idx: "filter (\<lambda>j. length (line_tokens ([?l0, ?l1, ?l2] ! j)) < 4) [0..<length [?l0, ?l1, ?l2]]
             = [0, 2]"
    by (simp add: upt_rec line_tokens_def TAB_def LF_def CR_def)
  have "str_nat 0 = ''0''" and "str_nat 2 = ''2''"
    by code_simp+
  then have d: "map diagnostic [0, 2] =
      [''Unexpected line length at line 0'', ''Unexpected line length at line 2'']"
    by (simp add: diagnostic_def)
  have a: "hd (split_str TAB (hd [?l0, ?l1, ?l2])) = ''oops'' @ [LF]"
    by (simp add: TAB_def LF_def)
  have b: "hd (split_str TAB (last [?l0, ?l1, ?l2])) = ''bad''"
    by (simp add: TAB_def LF_def)
  have "parse_lines_log [''log'' \<mapsto> Decodes example_mixed_log] ''log'' (Some Task_new) =
           (Inr (Some (Task_new\<lparr>session := (session Task_new)
                   \<lparr>start_time := Some (''oops'' @ [LF]), end_time := Some ''bad''\<rparr>\<rparr>)),
            [''Unexpected line length at line 0'', ''Unexpected line length at line 2''])"
    using malformed_line_skipped
      [of "[''log'' \<mapsto> Decodes example_mixed_log]" "''log''" example_mixed_log "[?l0, ?l1, ?l2]"
          2 Task_new,
        OF f example_mixed_log_lines [symmetric] i disjI1 [OF m]]
    unfolding idx d a b by blast
  then show ?thesis
    by (simp add: Task_new_def)
qed

text \<open>
  Claim C3, as stated, fails on the empty file: \<open>lines[0]\<close> raises \<open>IndexError\<close>,
  also when a task record is passed.
\<close>

theorem empty_file_raises:
  "parse_lines_log [''log'' \<mapsto> Decodes []] ''log'' (Some Task_new) = (Inl IndexError, [])"
  by (simp add: parse_lines_log_def open_r_def fobj_readlines_def Task_truth_def)

text \<open>
  Claim C3, amended. For every file that is not empty and whose content decodes as
  text, well-formed or consisting entirely of malformed lines, \<open>parse_lines_log\<close>
  called with a task record returns normally: the result is that record with the two
  session times set, and what is printed is one diagnostic for each line of fewer than
  four tokens, in the order of the file. (An empty file raises \<open>IndexError\<close>, and
  content that does not decode raises \<open>UnicodeDecodeError\<close>.)
\<close>

theorem parse_lines_log_returns:
  assumes "fs file_path = Some (Decodes raw)" and "raw \<noteq> []"
    and "lines = readlines (universal_newlines raw)"
  shows "parse_lines_log fs file_path (Some t) =
     (Inr (Some (t\<lparr>session := (session t)
                 \<lparr>start_time := Some (hd (split_str TAB (hd lines))),
                  end_time := Some (hd (split_str TAB (last lines)))\<rparr>\<rparr>)),
      map diagnostic (filter (\<lambda>i. length (line_tokens (lines ! i)) < 4) [0..<length lines]))"
proof -
  have "(\<lambda>i. length (line_tokens (lines ! i)) < 4) = (\<lambda>i. length (line_tokens (lines ! i)) \<le> 3)"
    by auto
  then show ?thesis
    unfolding parse_lines_log_eq [of fs file_path raw t, OF assms(1,2)] Let_def assms(3)
    by simp
qed

theorem parse_lines_log_returns_witness:
  "parse_lines_log [''log'' \<mapsto> Decodes (''oops'' @ [LF])] ''log'' (Some Task_new) =
     (Inr (Some (Task_new\<lparr>session := \<lparr>start_time = Some (''oops'' @ [LF]),
                                      end_time = Some (''oops'' @ [LF])\<rparr>\<rparr>)),
      [''Unexpected line length at line 0''])"
proof -
  have f: "[''log'' \<mapsto> Decodes (''oops'' @ [LF])] ''log'' = Some (Decodes (''oops'' @ [LF]))"
    by simp
  have n: "''oops'' @ [LF] \<noteq> []"
    by simp
  have l: "[''oops'' @ [LF]] = readlines (universal_newlines (''oops'' @ [LF]))"
    by (simp add: LF_def CR_def)
  have "str_nat 0 = ''0''"
    by code_simp
  then have d: "diagnostic 0 = ''Unexpected line length at line 0''"
    by (simp add: diagnostic_def)
  have k: "length (line_tokens (''oops'' @ [LF])) < 4"
    by (simp add: line_tokens_def LF_def CR_def TAB_def)
  show ?thesis
    using parse_lines_log_returns
      [of "[''log'' \<mapsto> Decodes (''oops'' @ [LF])]" "''log''" "''oops'' @ [LF]" "[''oops'' @ [LF]]" Task_new,
        OF f n l] k d
    by (simp add: Task_new_def LF_def TAB_def)
qed

text \<open>
  Claim C4, as stated, fails on the specification's own example: the parser has no
  statement that handles a position event, so the position stream of an empty task
  record is still empty after parsing, not \<open>[1.0, 1.5]\<close>.
\<close>

theorem position_example_stays_empty:
  "parse_lines_log [''log'' \<mapsto> Decodes example_log] ''log'' (Some Task_new) =
     (Inr (Some (Task_new\<lparr>session := \<lparr>start_time = Some ''0'', end_time = Some ''100''\<rparr>\<rparr>)), []) \<and>
   pos_x (position (Task_new\<lparr>session := \<lparr>start_time = Some ''0'', end_time = Some ''100''\<rparr>\<rparr>))
     \<noteq> [''1.0'', ''1.5'']"
proof -
  have f: "[''log'' \<mapsto> Decodes example_log] ''log'' = Some (Decodes example_log)"
    by simp
  have n: "example_log \<noteq> []"
    by (simp add: example_log_def)
  have a: "hd (split_str TAB (hd example_log_lines)) = ''0''"
    by (simp add: example_log_lines_def TAB_def LF_def)
  have b: "hd (split_str TAB (last example_log_lines)) = ''100''"
    by (simp add: example_log_lines_def TAB_def LF_def)
  have c: "filter (\<lambda>i. length (line_tokens (example_log_lines ! i)) \<le> 3)
             [0..<length example_log_lines] = []"
    by (simp add: example_log_lines_def line_tokens_def TAB_def LF_def CR_def upt_conv_Cons)
  show ?thesis
    unfolding parse_lines_log_eq [of "[''log'' \<mapsto> Decodes example_log]" "''log''" example_log Task_new, OF f n]
      Let_def readlines_example_log a b c
    by (simp add: Task_new_def)
qed

text \<open>
  Claim C4, amended. For every log file that is not empty, in particular one of position
  lines only, \<open>parse_lines_log\<close> called with a task record returns it with the position
  stream as it was, and with the session times taken from the first and the last line;
  for the example these are \<open>"0"\<close> and \<open>"100"\<close>.
\<close>

theorem position_stream_untouched:
  assumes "fs file_path = Some (Decodes raw)" and "raw \<noteq> []"
  shows "\<exists>t' out. parse_lines_log fs file_path (Some t) = (Inr (Some t'), out) \<and>
           position t' = position t \<and>
           start_time (session t') = Some (hd (split_str TAB (hd (readlines (universal_newlines raw))))) \<and>
           end_time (session t') = Some (hd (split_str TAB (last (readlines (universal_newlines raw)))))"
  unfolding parse_lines_log_eq [of fs file_path raw t, OF assms] Let_def
  by simp

theorem position_stream_untouched_witness:
  "\<exists>t' out. parse_lines_log [''log'' \<mapsto> Decodes example_log] ''log'' (Some Task_new) = (Inr (Some t'), out) \<and>
     position t' = position Task_new \<and>
     start_time (session t') = Some ''0'' \<and> end_time (session t') = Some ''100''"
proof -
  have f: "[''log'' \<mapsto> Decodes example_log] ''log'' = Some (Decodes example_log)"
    by simp
  have n: "example_log \<noteq> []"
    by (simp add: example_log_def)
  have a: "hd (split_str TAB (hd example_log_lines)) = ''0''"
    by (simp add: example_log_lines_def TAB_def LF_def)
  have b: "hd (split_str TAB (last example_log_lines)) = ''100''"
    by (simp add: example_log_lines_def TAB_def LF_def)
  show ?thesis
    using position_stream_untouched
      [of "[''log'' \<mapsto> Decodes example_log]" "''log''" example_log Task_new, OF f n]
    unfolding readlines_example_log a b .
qed

text \<open>
  Claim C5 at failing inputs. The test \<open>if not Task:\<close> looks at the class, which is
  always true, and not at the argument \<open>task\<close>, so no record is created: without a
  task record, \<open>parse_lines_log\<close> on the example log and \<open>parse_lines_sync\<close> on the
  example sync file raise \<open>AttributeError\<close>, and \<open>parse_lines_sync\<close> on an empty file
  returns \<open>None\<close>.
\<close>

theorem no_task_record_created:
  "parse_lines_log [''log'' \<mapsto> Decodes example_log] ''log'' None = (Inl AttributeError, []) \<and>
   parse_lines_sync [''sync'' \<mapsto> Decodes example_sync] ''sync'' None = Inl AttributeError \<and>
   parse_lines_sync [''sync'' \<mapsto> Decodes []] ''sync'' None = Inr None"
proof -
  have a: "readlines (universal_newlines example_sync) \<noteq> []"
    by (simp add: example_sync_def readlines_Nil universal_newlines_Nil)
  then obtain l ls where b: "readlines (universal_newlines example_sync) = l # ls"
    by (cases "readlines (universal_newlines example_sync)") auto
  have c: "readlines (universal_newlines example_log) \<noteq> []"
    by (simp add: readlines_example_log example_log_lines_def)
  show ?thesis
    using c by (simp add: parse_lines_log_def parse_lines_sync_def open_r_def fobj_readlines_def Task_truth_def b
        sync_line_def Let_def)
qed

text \<open>
  Claim C6. For a sync file whose lines all have at least three tokens,
  \<open>parse_lines_sync\<close>, given a task record, returns it with one entry appended to each
  of the three sync streams for each line, in the order of the file: the entries that the
  \<open>i\<close>-th line adds are its tokens 0, 1 and 2. Each stream grows by the number of lines.
\<close>

theorem parse_lines_sync_streams:
  assumes "fs file_path = Some (Decodes raw)"
    and "lines = readlines (universal_newlines raw)"
    and "\<forall>l \<in> set lines. 3 \<le> length (line_tokens l)"
  shows "parse_lines_sync fs file_path (Some t) =
     Inr (Some (t\<lparr>sync_behavioral := (sync_behavioral t)
        \<lparr>sync_time := sync_time (sync_behavioral t) @ map (\<lambda>l. line_tokens l ! 0) lines,
         sync_frame := sync_frame (sync_behavioral t) @ map (\<lambda>l. line_tokens l ! 1) lines,
         sync_on_off := sync_on_off (sync_behavioral t) @ map (\<lambda>l. line_tokens l ! 2) lines\<rparr>\<rparr>))"
  using assms(1) sync_loop_eq [OF assms(3), of t]
  by (simp add: parse_lines_sync_def open_r_def fobj_readlines_def Task_truth_def assms(2))

theorem parse_lines_sync_streams_witness:
  "parse_lines_sync [''sync'' \<mapsto> Decodes example_sync] ''sync'' (Some Task_new) =
     Inr (Some (Task_new\<lparr>sync_behavioral :=
        \<lparr>sync_time = [''10'', ''20''],
         sync_frame = [''1'', ''2''],
         sync_on_off = [''on'', ''off'']\<rparr>\<rparr>))"
proof -
  have f: "[''sync'' \<mapsto> Decodes example_sync] ''sync'' = Some (Decodes example_sync)"
    by simp
  have l: "[''10'' @ [TAB] @ ''1'' @ [TAB] @ ''on'' @ [LF], ''20'' @ [TAB] @ ''2'' @ [TAB] @ ''off'' @ [LF]]
           = readlines (universal_newlines example_sync)"
    by (simp add: example_sync_def TAB_def LF_def CR_def)
  let ?l1 = "''10'' @ [TAB] @ ''1'' @ [TAB] @ ''on'' @ [LF]"
  let ?l2 = "''20'' @ [TAB] @ ''2'' @ [TAB] @ ''off'' @ [LF]"
  have a: "line_tokens ?l1 = [''10'', ''1'', ''on'']"
    by (simp add: line_tokens_def TAB_def LF_def CR_def)
  have b: "line_tokens ?l2 = [''20'', ''2'', ''off'']"
    by (simp add: line_tokens_def TAB_def LF_def CR_def)
  have h: "\<forall>l \<in> set [?l1, ?l2]. 3 \<le> length (line_tokens l)"
    unfolding list.set ball_simps a b by simp
  show ?thesis
    unfolding parse_lines_sync_streams
      [of "[''sync'' \<mapsto> Decodes example_sync]" "''sync''" example_sync "[?l1, ?l2]" Task_new, OF f l h]
      list.map a b
    by (simp add: Task_new_def)
qed

text \<open>
  Claim C9. Every call of \<open>process_session\<close> raises: the first statement reads the
  local \<open>task\<close> before any assignment. Were the local bound, the call would still
  raise, at the read of the global \<open>file_path\<close>, which the module does not bind, as it
  does not bind \<open>verbose\<close>.
\<close>

theorem process_session_raises:
  "process_session process_task print_status fs file_path_log process = (Inl UnboundLocalError, []) \<and>
   process_session_body process_task print_status parser_globals (Some v) fs file_path_log process =
     (Inl NameError, []) \<and>
   load_global parser_globals ''file_path'' = Inl NameError \<and>
   load_global parser_globals ''verbose'' = Inl NameError"
  by (simp add: process_session_def process_session_body_def load_local_def load_global_def
      parser_globals_def)

text \<open>
  Claim C10, as stated, fails on a last line without newline that ends in a tab: the
  line \<open>a\tb\tc\t\<close> has four tab-separated fields, the last one empty. No character
  of that field is dropped; the tab is, and the field disappears. The sync parser
  stores the three tokens left, and the log parser takes the line to be too short.
\<close>

theorem tab_ended_line_loses_field:
  "split_str TAB (''a'' @ [TAB] @ ''b'' @ [TAB] @ ''c'' @ [TAB]) = [''a'', ''b'', ''c'', []] \<and>
   line_tokens (''a'' @ [TAB] @ ''b'' @ [TAB] @ ''c'' @ [TAB]) = [''a'', ''b'', ''c''] \<and>
   line_tokens (''a'' @ [TAB] @ ''b'' @ [TAB] @ ''c'' @ [TAB]) \<noteq>
     butlast (split_str TAB (''a'' @ [TAB] @ ''b'' @ [TAB] @ ''c'' @ [TAB])) @
     [butlast (last (split_str TAB (''a'' @ [TAB] @ ''b'' @ [TAB] @ ''c'' @ [TAB])))] \<and>
   parse_lines_sync [''sync'' \<mapsto> Decodes (''a'' @ [TAB] @ ''b'' @ [TAB] @ ''c'' @ [TAB])] ''sync''
       (Some Task_new) =
     Inr (Some (Task_new\<lparr>sync_behavioral :=
        \<lparr>sync_time = [''a''], sync_frame = [''b''], sync_on_off = [''c'']\<rparr>\<rparr>)) \<and>
   parse_lines_log [''log'' \<mapsto> Decodes (''a'' @ [TAB] @ ''b'' @ [TAB] @ ''c'' @ [TAB])] ''log''
       (Some Task_new) =
     (Inr (Some (Task_new\<lparr>session := \<lparr>start_time = Some ''a'', end_time = Some ''a''\<rparr>\<rparr>)),
      [''Unexpected line length at line 0''])"
proof -
  let ?l = "''a'' @ [TAB] @ ''b'' @ [TAB] @ ''c'' @ [TAB]"
  have s: "split_str TAB ?l = [''a'', ''b'', ''c'', []]"
    by (simp add: TAB_def)
  have t: "line_tokens ?l = [''a'', ''b'', ''c'']"
    by (simp add: line_tokens_def TAB_def CR_def)
  have n: "line_tokens ?l \<noteq> butlast (split_str TAB ?l) @ [butlast (last (split_str TAB ?l))]"
    unfolding s t by simp
  have r: "readlines (universal_newlines ?l) = [?l]"
    by (simp add: TAB_def LF_def CR_def)
  have y: "parse_lines_sync [''sync'' \<mapsto> Decodes ?l] ''sync'' (Some Task_new) =
     Inr (Some (Task_new\<lparr>sync_behavioral :=
        \<lparr>sync_time = [''a''], sync_frame = [''b''], sync_on_off = [''c'']\<rparr>\<rparr>))"
    unfolding parse_lines_sync_def open_r_def fobj_readlines_def Let_def
    by (simp add: r Task_truth_def sync_line_def t Task_new_def del: append.simps)
  have "str_nat 0 = ''0''"
    by code_simp
  then have d: "diagnostic 0 = ''Unexpected line length at line 0''"
    by (simp add: diagnostic_def)
  have f: "[''log'' \<mapsto> Decodes ?l] ''log'' = Some (Decodes ?l)"
    by simp
  have ne: "?l \<noteq> []"
    by simp
  have g: "parse_lines_log [''log'' \<mapsto> Decodes ?l] ''log'' (Some Task_new) =
     (Inr (Some (Task_new\<lparr>session := \<lparr>start_time = Some ''a'', end_time = Some ''a''\<rparr>\<rparr>)),
      [''Unexpected line length at line 0''])"
    unfolding parse_lines_log_eq [of "[''log'' \<mapsto> Decodes ?l]" "''log''" ?l Task_new, OF f ne]
      Let_def r
    by (simp add: Task_new_def TAB_def CR_def line_tokens_def d)
  from s t n y g show ?thesis
    by blast
qed

text \<open>
  Claim C10, amended. In both parsers the tokens of a line are the tab-separated
  fields of the line with its carriage returns removed and its final character
  dropped: the sync parser stores tokens 0, 1 and 2 of every line so computed, and the
  log parser prints its diagnostic for the lines with at most three tokens so computed.
  So for every line of the file, in particular a last line without newline: when the
  line does not end in a tab, the tokens are its fields with the last field short of
  its final character (the newline when there is one, a character of the data when
  there is none); when it ends in a tab, the tab is dropped and the tokens are its
  fields without the empty last one.
\<close>

theorem final_character_dropped:
  assumes "fs file_path = Some (Decodes raw)"
    and "lines = readlines (universal_newlines raw)"
    and "tok = (\<lambda>l. split_str TAB (butlast (filter (\<lambda>c. c \<noteq> CR) l)))"
  shows "((\<forall>l \<in> set lines. 3 \<le> length (tok l)) \<longrightarrow>
            parse_lines_sync fs file_path (Some t) =
              Inr (Some (t\<lparr>sync_behavioral := (sync_behavioral t)
                \<lparr>sync_time := sync_time (sync_behavioral t) @ map (\<lambda>l. tok l ! 0) lines,
                 sync_frame := sync_frame (sync_behavioral t) @ map (\<lambda>l. tok l ! 1) lines,
                 sync_on_off := sync_on_off (sync_behavioral t) @ map (\<lambda>l. tok l ! 2) lines\<rparr>\<rparr>))) \<and>
         (lines \<noteq> [] \<longrightarrow>
            snd (parse_lines_log fs file_path (Some t)) =
              map diagnostic (filter (\<lambda>i. length (tok (lines ! i)) \<le> 3) [0..<length lines])) \<and>
         (\<forall>l \<in> set lines.
            (last l \<noteq> TAB \<longrightarrow>
               tok l = butlast (split_str TAB l) @ [butlast (last (split_str TAB l))] \<and>
               last (split_str TAB l) \<noteq> []) \<and>
            (last l = TAB \<longrightarrow> tok l = butlast (split_str TAB l)))"
proof -
  have tok: "tok = line_tokens"
    unfolding assms(3) by (rule ext) (simp add: line_tokens_def)
  have a: "(\<forall>l \<in> set lines. 3 \<le> length (tok l)) \<longrightarrow>
            parse_lines_sync fs file_path (Some t) =
              Inr (Some (t\<lparr>sync_behavioral := (sync_behavioral t)
                \<lparr>sync_time := sync_time (sync_behavioral t) @ map (\<lambda>l. tok l ! 0) lines,
                 sync_frame := sync_frame (sync_behavioral t) @ map (\<lambda>l. tok l ! 1) lines,
                 sync_on_off := sync_on_off (sync_behavioral t) @ map (\<lambda>l. tok l ! 2) lines\<rparr>\<rparr>))"
  proof
    assume "\<forall>l \<in> set lines. 3 \<le> length (tok l)"
    then have w: "\<forall>l \<in> set lines. 3 \<le> length (line_tokens l)"
      unfolding tok .
    show "parse_lines_sync fs file_path (Some t) =
              Inr (Some (t\<lparr>sync_behavioral := (sync_behavioral t)
                \<lparr>sync_time := sync_time (sync_behavioral t) @ map (\<lambda>l. tok l ! 0) lines,
                 sync_frame := sync_frame (sync_behavioral t) @ map (\<lambda>l. tok l ! 1) lines,
                 sync_on_off := sync_on_off (sync_behavioral t) @ map (\<lambda>l. tok l ! 2) lines\<rparr>\<rparr>))"
      unfolding tok
      using assms(1) sync_loop_eq [OF w, of t]
      by (simp add: parse_lines_sync_def open_r_def fobj_readlines_def Task_truth_def assms(2))
  qed
  have b: "lines \<noteq> [] \<longrightarrow>
            snd (parse_lines_log fs file_path (Some t)) =
              map diagnostic (filter (\<lambda>i. length (tok (lines ! i)) \<le> 3) [0..<length lines])"
  proof
    assume "lines \<noteq> []"
    then have raw: "raw \<noteq> []"
      using assms(2) by auto
    show "snd (parse_lines_log fs file_path (Some t)) =
              map diagnostic (filter (\<lambda>i. length (tok (lines ! i)) \<le> 3) [0..<length lines])"
      unfolding parse_lines_log_eq [of fs file_path raw t, OF assms(1) raw] Let_def snd_conv
        assms(2) tok ..
  qed
  have c: "\<forall>l \<in> set lines.
            (last l \<noteq> TAB \<longrightarrow>
               tok l = butlast (split_str TAB l) @ [butlast (last (split_str TAB l))] \<and>
               last (split_str TAB l) \<noteq> []) \<and>
            (last l = TAB \<longrightarrow> tok l = butlast (split_str TAB l))"
  proof
    fix l
    assume l: "l \<in> set lines"
    then have "CR \<notin> set l"
      using readlines_no_CR [of l raw] assms(2) by simp
    then have f: "filter (\<lambda>c. c \<noteq> CR) l = l"
      by (induction l) auto
    have ne: "l \<noteq> []"
      using l readlines_no_empty [of "universal_newlines raw"] assms(2) by auto
    show "(last l \<noteq> TAB \<longrightarrow>
               tok l = butlast (split_str TAB l) @ [butlast (last (split_str TAB l))] \<and>
               last (split_str TAB l) \<noteq> []) \<and>
            (last l = TAB \<longrightarrow> tok l = butlast (split_str TAB l))"
      unfolding assms(3) f
      using split_str_butlast [OF ne, of TAB] last_field_nonempty [OF ne, of TAB]
        split_str_butlast_sep [OF ne, of TAB]
      by blast
  qed
  from a b c show ?thesis
    by blast
qed

theorem final_character_dropped_witness:
  "parse_lines_sync [''sync'' \<mapsto> Decodes (''20'' @ [TAB] @ ''2'' @ [TAB] @ ''off'')] ''sync''
       (Some Task_new) =
     Inr (Some (Task_new\<lparr>sync_behavioral :=
        \<lparr>sync_time = [''20''], sync_frame = [''2''], sync_on_off = [''of'']\<rparr>\<rparr>)) \<and>
   snd (parse_lines_log [''sync'' \<mapsto> Decodes (''20'' @ [TAB] @ ''2'' @ [TAB] @ ''off'')] ''sync''
       (Some Task_new)) = [''Unexpected line length at line 0'']"
proof -
  let ?l = "''20'' @ [TAB] @ ''2'' @ [TAB] @ ''off''"
  let ?tok = "\<lambda>l. split_str TAB (butlast (filter (\<lambda>c. c \<noteq> CR) l))"
  have f: "[''sync'' \<mapsto> Decodes ?l] ''sync'' = Some (Decodes ?l)"
    by simp
  have r: "[?l] = readlines (universal_newlines ?l)"
    by (simp add: TAB_def LF_def CR_def)
  have s: "split_str TAB ?l = [''20'', ''2'', ''off'']"
    by (simp add: TAB_def)
  have e: "last ?l \<noteq> TAB"
    by (simp add: TAB_def)
  note inst = final_character_dropped
    [of "[''sync'' \<mapsto> Decodes ?l]" "''sync''" ?l "[?l]" ?tok Task_new, OF f r refl]
  have m: "?l \<in> set [?l]"
    by simp
  from inst m e have "?tok ?l = butlast (split_str TAB ?l) @ [butlast (last (split_str TAB ?l))]"
    by blast
  then have k: "?tok ?l = [''20'', ''2'', ''of'']"
    unfolding s by simp
  have w: "\<forall>l \<in> set [?l]. 3 \<le> length (?tok l)"
    unfolding list.set ball_simps k by simp
  have n: "[?l] \<noteq> []"
    by simp
  have "str_nat 0 = ''0''"
    by code_simp
  then have d: "diagnostic 0 = ''Unexpected line length at line 0''"
    by (simp add: diagnostic_def)
  have idx: "filter (\<lambda>i. length (?tok ([?l] ! i)) \<le> 3) [0..<length [?l]] = [0]"
    by (simp add: TAB_def CR_def)
  from inst w have y: "parse_lines_sync [''sync'' \<mapsto> Decodes ?l] ''sync'' (Some Task_new) =
      Inr (Some (Task_new\<lparr>sync_behavioral := (sync_behavioral Task_new)
                \<lparr>sync_time := sync_time (sync_behavioral Task_new) @ map (\<lambda>l. ?tok l ! 0) [?l],
                 sync_frame := sync_frame (sync_behavioral Task_new) @ map (\<lambda>l. ?tok l ! 1) [?l],
                 sync_on_off := sync_on_off (sync_behavioral Task_new) @ map (\<lambda>l. ?tok l ! 2) [?l]\<rparr>\<rparr>))"
    by blast
  from inst n have g: "snd (parse_lines_log [''sync'' \<mapsto> Decodes ?l] ''sync'' (Some Task_new)) =
      map diagnostic (filter (\<lambda>i. length (?tok ([?l] ! i)) \<le> 3) [0..<length [?l]])"
    by blast
  have "parse_lines_sync [''sync'' \<mapsto> Decodes ?l] ''sync'' (Some Task_new) =
     Inr (Some (Task_new\<lparr>sync_behavioral :=
        \<lparr>sync_time = [''20''], sync_frame = [''2''], sync_on_off = [''of'']\<rparr>\<rparr>))"
    unfolding y list.map k by (simp add: Task_new_def)
  moreover have "snd (parse_lines_log [''sync'' \<mapsto> Decodes ?l] ''sync'' (Some Task_new)) =
      [''Unexpected line length at line 0'']"
    unfolding g idx list.map d ..
  ultimately show ?thesis
    by blast
qed

section \<open>Properties of the scripts\<close>

lemma and_then_Inr: "and_then (Inr u, evs) b = (fst b, evs @ snd b)"
  by (simp add: and_then_def)

lemma and_then_Inl: "and_then (Inl e, evs) b = (Inl e, evs)"
  by (simp add: and_then_def)

lemma and_then_assoc: "and_then a (and_then b c) = and_then (and_then a b) c"
  by (cases a; cases b) (auto simp: and_then_def split: sum.splits)

lemma and_then_cases:
  obtains e where "fst a = Inl e" and "and_then a b = a"
  | "fst a = Inr ()" and "and_then a b = (fst b, snd a @ snd b)"
  by (cases a; cases "fst a") (auto simp: and_then_def)

lemma prepare_calls_append: "prepare_calls (xs @ ys) = prepare_calls xs @ prepare_calls ys"
  by (induction xs rule: prepare_calls.induct) simp_all

lemma convert_calls_append: "convert_calls (xs @ ys) = convert_calls xs @ convert_calls ys"
  by (induction xs rule: convert_calls.induct) simp_all

lemma prepare_calls_Output: "prepare_calls (map Output xs) = []"
  by (induction xs) simp_all

lemma convert_calls_Output: "convert_calls (map Output xs) = []"
  by (induction xs) simp_all

lemma Call_convert_Output: "Call_convert_data S \<notin> set (map Output xs)"
  by auto

lemma convert_data_missing:
  assumes "missing_input w S St"
  shows "convert_data w fill S St =
     (Inl AssertionError,
      [Call_convert_data S,
       Status (VERBOSE St)
         (''Converting data for: '' @ make_session_name w (SUBJECT S) (EXPERIMENT S) (SESSION S)) 0])"
  using assms
  by (auto simp: convert_data_def missing_input_def Let_def split: option.splits)

lemma convert_data_events:
  "\<exists>outs. snd (convert_data w fill S St) =
     [Call_convert_data S,
      Status (VERBOSE St)
        (''Converting data for: '' @ make_session_name w (SUBJECT S) (EXPERIMENT S) (SESSION S)) 0]
     @ map Output outs"
  by (auto simp: convert_data_def Let_def and_then_def split: option.splits)

lemma prepare_calls_convert_data: "prepare_calls (snd (convert_data w fill S St)) = []"
  using convert_data_events [of w fill S St] by (auto simp: prepare_calls_Output)

lemma convert_calls_convert_data: "convert_calls (snd (convert_data w fill S St)) = [S]"
  using convert_data_events [of w fill S St] by (auto simp: convert_calls_Output)

lemma Call_convert_data_in:
  "Call_convert_data S' \<in> set (snd (convert_data w fill S St)) \<Longrightarrow> S' = S"
  using convert_data_events [of w fill S St] by auto

lemma session_of_pair:
  "session_of experiment (subject, sess) =
     \<lparr>SUBJECT = subject, EXPERIMENT = experiment, SESSION = sess\<rparr>"
  by (simp add: session_of_def)

lemma session_loop_run:
  assumes "to_run w St skip experiment (subject, sess)"
  shows "session_loop w fill St skip experiment (get_files_nwb w) subject (sess # rest) =
     and_then
       (and_then
          (case prepare_data w (session_of experiment (subject, sess)) St of
             Some e \<Rightarrow> (Inl e, [Call_prepare_data (session_of experiment (subject, sess))])
           | None \<Rightarrow> (Inr (), [Call_prepare_data (session_of experiment (subject, sess))]))
          (convert_data w fill (session_of experiment (subject, sess)) St))
       (session_loop w fill St skip experiment (get_files_nwb w) subject rest)"
proof -
  have a: "make_session_name w subject experiment sess \<notin> set (SESSIONS skip)"
    using assms by (simp add: to_run_def)
  have b: "\<not> (SKIP_ALREADY_RUN St \<and>
      make_session_name w subject experiment sess @ ''.nwb'' \<in> set (get_files_nwb w))"
    using assms by (simp add: to_run_def)
  show ?thesis
    unfolding session_of_pair session_loop.simps Let_def session_id.simps if_not_P [OF a] if_not_P [OF b]
    by (rule and_then_assoc)
qed

lemma session_loop_skip:
  assumes "subject \<notin> set (SUBJECTS skip)"
    and "\<not> to_run w St skip experiment (subject, sess)"
  shows "\<exists>msg. session_loop w fill St skip experiment (get_files_nwb w) subject (sess # rest) =
     and_then (Inr (), [Status (VERBOSE St) msg 0])
       (session_loop w fill St skip experiment (get_files_nwb w) subject rest)"
proof (cases "make_session_name w subject experiment sess \<in> set (SESSIONS skip)")
  case True
  show ?thesis
    unfolding session_loop.simps Let_def session_id.simps if_P [OF True]
    by (rule exI) (rule refl)
next
  case False
  with assms have "SKIP_ALREADY_RUN St \<and>
      make_session_name w subject experiment sess @ ''.nwb'' \<in> set (get_files_nwb w)"
    by (simp add: to_run_def)
  then show ?thesis
    unfolding session_loop.simps Let_def session_id.simps if_not_P [OF False]
    by (simp only: simp_thms if_True) (rule exI, rule refl)
qed

lemma update_fresh:
  assumes "k \<notin> fst ` set d"
  shows "AList.update k v d = d @ [(k, v)]"
  using assms by (induction d) auto

lemma foldl_update_distinct:
  assumes "distinct ks" and "set ks \<inter> fst ` set d = {}"
  shows "foldl (\<lambda>d k. AList.update k (f k) d) d ks = d @ map (\<lambda>k. (k, f k)) ks"
  using assms
proof (induction ks arbitrary: d)
  case Nil
  show ?case by simp
next
  case (Cons k ks)
  have fresh: "k \<notin> fst ` set d"
    using Cons.prems(2) by auto
  have "set ks \<inter> fst ` set (d @ [(k, f k)]) = {}"
    using Cons.prems by auto
  with Cons.prems(1) have
    "foldl (\<lambda>d k. AList.update k (f k) d) (d @ [(k, f k)]) ks =
       (d @ [(k, f k)]) @ map (\<lambda>k. (k, f k)) ks"
    by (intro Cons.IH) simp_all
  then show ?case
    by (simp add: update_fresh [OF fresh])
qed

lemma all_sessions_distinct:
  assumes "distinct (get_files_recordings w)"
  shows "all_sessions w experiment =
     map (\<lambda>subject. (subject, get_files_sessions w subject experiment)) (get_files_recordings w)"
  unfolding all_sessions_def
  using foldl_update_distinct [OF assms, of "[]" "\<lambda>subject. get_files_sessions w subject experiment"]
  by simp

lemma summary_and_then:
  "summary (and_then a b) =
     (case fst a of
        Inl e \<Rightarrow> summary a
      | Inr u \<Rightarrow> (fst b, prepare_calls (snd a) @ prepare_calls (snd b),
                  convert_calls (snd a) @ convert_calls (snd b)))"
  by (cases a; cases "fst a")
    (auto simp: summary_def and_then_def prepare_calls_append convert_calls_append)

lemma batch_spec_append:
  "batch_spec w fill St (K1 @ K2) =
     (case batch_spec w fill St K1 of
        (Inl e, ps, cs) \<Rightarrow> (Inl e, ps, cs)
      | (Inr u, ps, cs) \<Rightarrow>
          (case batch_spec w fill St K2 of (r, ps', cs') \<Rightarrow> (r, ps @ ps', cs @ cs')))"
  by (induction K1) (auto split: option.splits sum.splits prod.splits)

lemma summary_seq:
  assumes "summary a = batch_spec w fill St K1" and "summary b = batch_spec w fill St K2"
  shows "summary (and_then a b) = batch_spec w fill St (K1 @ K2)"
proof (cases "fst a")
  case (Inl e)
  then have "batch_spec w fill St K1 = (Inl e, prepare_calls (snd a), convert_calls (snd a))"
    using assms(1) by (simp add: summary_def)
  then show ?thesis
    unfolding summary_and_then batch_spec_append using Inl by (simp add: summary_def)
next
  case (Inr u)
  then have a: "batch_spec w fill St K1 = (Inr u, prepare_calls (snd a), convert_calls (snd a))"
    using assms(1) by (simp add: summary_def)
  have b: "batch_spec w fill St K2 = (fst b, prepare_calls (snd b), convert_calls (snd b))"
    using assms(2) by (simp add: summary_def)
  show ?thesis
    unfolding summary_and_then batch_spec_append a b using Inr by simp
qed

lemma summary_Status: "summary (Inr (), [Status v msg n]) = batch_spec w fill St []"
  by (simp add: summary_def)

lemma summary_Nil: "summary (Inr (), []) = batch_spec w fill St []"
  by (simp add: summary_def)

lemma summary_pipeline:
  "summary
     (and_then (case prepare_data w S St of
                  Some e \<Rightarrow> (Inl e, [Call_prepare_data S])
                | None \<Rightarrow> (Inr (), [Call_prepare_data S]))
        (convert_data w fill S St))
   = batch_spec w fill St [S]"
proof (cases "prepare_data w S St")
  case (Some e)
  then show ?thesis
    by (simp add: summary_def and_then_Inl)
next
  case None
  then show ?thesis
    by (cases "fst (convert_data w fill S St)")
      (simp_all add: summary_def and_then_Inr prepare_calls_convert_data
        convert_calls_convert_data)
qed

lemma summary_session_loop:
  assumes "subject \<notin> set (SUBJECTS skip)"
  shows "summary (session_loop w fill St skip experiment (get_files_nwb w) subject sessions) =
     batch_spec w fill St
       (map (session_of experiment)
          (filter (to_run w St skip experiment) (map (\<lambda>sess. (subject, sess)) sessions)))"
proof (induction sessions)
  case Nil
  show ?case by (simp add: summary_def)
next
  case (Cons sess rest)
  let ?K = "map (session_of experiment)
        (filter (to_run w St skip experiment) (map (\<lambda>sess. (subject, sess)) rest))"
  let ?rest = "session_loop w fill St skip experiment (get_files_nwb w) subject rest"
  show ?case
  proof (cases "to_run w St skip experiment (subject, sess)")
    case True
    have "summary (session_loop w fill St skip experiment (get_files_nwb w) subject (sess # rest)) =
            batch_spec w fill St ([session_of experiment (subject, sess)] @ ?K)"
      unfolding session_loop_run [OF True]
      by (rule summary_seq [OF summary_pipeline Cons.IH])
    then show ?thesis
      using True by simp
  next
    case False
    from session_loop_skip [OF assms False] obtain msg where
      "session_loop w fill St skip experiment (get_files_nwb w) subject (sess # rest) =
         and_then (Inr (), [Status (VERBOSE St) msg 0]) ?rest"
      by blast
    then have "summary (session_loop w fill St skip experiment (get_files_nwb w) subject (sess # rest)) =
            batch_spec w fill St ([] @ ?K)"
      using summary_seq [OF summary_Status Cons.IH] by simp
    then show ?thesis
      using False by simp
  qed
qed

lemma summary_subject_loop:
  "summary (subject_loop w fill St skip experiment (get_files_nwb w) items) =
     batch_spec w fill St
       (map (session_of experiment)
          (filter (to_run w St skip experiment)
             (concat (map (\<lambda>(subject, sessions). map (\<lambda>sess. (subject, sess)) sessions) items))))"
proof (induction items)
  case Nil
  show ?case by (simp add: summary_def)
next
  case (Cons item items)
  obtain subject sessions where item: "item = (subject, sessions)"
    by (cases item)
  let ?K = "map (session_of experiment)
        (filter (to_run w St skip experiment)
           (concat (map (\<lambda>(subject, sessions). map (\<lambda>sess. (subject, sess)) sessions) items)))"
  let ?rest = "subject_loop w fill St skip experiment (get_files_nwb w) items"
  show ?case
  proof (cases "subject \<in> set (SUBJECTS skip)")
    case True
    then have "filter (to_run w St skip experiment) (map (\<lambda>sess. (subject, sess)) sessions) = []"
      by (simp add: filter_empty_conv to_run_def)
    moreover have "summary (and_then (Inr (), [Status v msg n]) ?rest) =
        batch_spec w fill St ([] @ ?K)" for v msg n
      by (rule summary_seq [OF summary_Status Cons.IH])
    ultimately show ?thesis
      using True by (simp add: item)
  next
    case False
    have "summary
       (and_then (session_loop w fill St skip experiment (get_files_nwb w) subject sessions) ?rest) =
       batch_spec w fill St
         (map (session_of experiment)
            (filter (to_run w St skip experiment) (map (\<lambda>sess. (subject, sess)) sessions)) @ ?K)"
      by (rule summary_seq [OF summary_session_loop [OF False] Cons.IH])
    then show ?thesis
      using False by (simp add: item)
  qed
qed

lemma summary_run_all_conversions:
  "summary (run_all_conversions w fill St skip experiment) =
     batch_spec w fill St
       (map (session_of experiment) (filter (to_run w St skip experiment) (enumerated w experiment)))"
proof -
  let ?K = "map (session_of experiment) (filter (to_run w St skip experiment) (enumerated w experiment))"
  have "summary
     (and_then (Inr (), [Status v1 m1 n1])
        (and_then (subject_loop w fill St skip experiment (get_files_nwb w) (all_sessions w experiment))
           (Inr (), [Status v2 m2 n2]))) = batch_spec w fill St ([] @ ?K @ [])" for v1 m1 n1 v2 m2 n2
    unfolding enumerated_def
    by (intro summary_seq summary_Status summary_subject_loop)
  then show ?thesis
    by (simp add: run_all_conversions_def Let_def)
qed

lemma batch_spec_follows:
  assumes "batch_spec w fill St K = (r, ps, cs)"
  shows "(\<exists>rest. K = ps @ rest) \<and> (\<exists>rest. ps = cs @ rest) \<and> (r = Inr () \<longrightarrow> ps = K \<and> cs = K)"
  using assms
proof (induction K arbitrary: r ps cs)
  case Nil
  then show ?case by simp
next
  case (Cons S Ss)
  show ?case
  proof (cases "prepare_data w S St")
    case (Some e)
    with Cons.prems show ?thesis by auto
  next
    case None
    show ?thesis
    proof (cases "fst (convert_data w fill S St)")
      case (Inl e)
      with None Cons.prems show ?thesis by auto
    next
      case (Inr u)
      obtain r' ps' cs' where t: "batch_spec w fill St Ss = (r', ps', cs')"
        by (cases "batch_spec w fill St Ss") auto
      from Cons.IH [OF t] have ih:
        "\<exists>rest. Ss = ps' @ rest" "\<exists>rest. ps' = cs' @ rest" "r' = Inr () \<longrightarrow> ps' = Ss \<and> cs' = Ss"
        by blast+
      have e: "r = r'" "ps = S # ps'" "cs = S # cs'"
        using Cons.prems None Inr t by simp_all
      show ?thesis
        unfolding e using ih by simp
    qed
  qed
qed

lemma halts_at_and_then:
  assumes "halts_at w St S a" and "halts_at w St S b"
  shows "halts_at w St S (and_then a b)"
proof (cases rule: and_then_cases [of a b])
  case (1 e)
  with assms(1) show ?thesis by simp
next
  case 2
  have na: "Call_convert_data S \<notin> set (snd a)"
    using assms(1) 2(1) unfolding halts_at_def by auto
  show ?thesis
    unfolding halts_at_def 2(2) fst_conv snd_conv
  proof
    assume "Call_convert_data S \<in> set (snd a @ snd b)"
    with na have "Call_convert_data S \<in> set (snd b)"
      by simp
    with assms(2) obtain pre where
      b: "fst b = Inl AssertionError" "snd b = pre @ stopped_call w St S"
      unfolding halts_at_def by blast
    have "snd a @ snd b = (snd a @ pre) @ stopped_call w St S"
      using b(2) by simp
    with b(1) show "fst b = Inl AssertionError \<and> (\<exists>pre. snd a @ snd b = pre @ stopped_call w St S)"
      by blast
  qed
qed

lemma halts_at_Status: "halts_at w St S (Inr (), [Status v msg n])"
  by (simp add: halts_at_def)

lemma halts_at_Nil: "halts_at w St S (Inr (), [])"
  by (simp add: halts_at_def)

lemma halts_at_prepare:
  "halts_at w St S
     (case prepare_data w S' St of
        Some e \<Rightarrow> (Inl e, [Call_prepare_data S'])
      | None \<Rightarrow> (Inr (), [Call_prepare_data S']))"
  by (cases "prepare_data w S' St") (simp_all add: halts_at_def)

lemma halts_at_convert_data:
  assumes "missing_input w S St"
  shows "halts_at w St S (convert_data w fill S' St)"
  unfolding halts_at_def
proof
  assume "Call_convert_data S \<in> set (snd (convert_data w fill S' St))"
  then have "S = S'"
    by (rule Call_convert_data_in)
  then have "convert_data w fill S' St = (Inl AssertionError, [] @ stopped_call w St S)"
    using convert_data_missing [OF assms] by (simp add: stopped_call_def)
  then show "fst (convert_data w fill S' St) = Inl AssertionError \<and>
             (\<exists>pre. snd (convert_data w fill S' St) = pre @ stopped_call w St S)"
    by (metis fst_conv snd_conv)
qed

lemma halts_at_if:
  assumes "c \<Longrightarrow> halts_at w St S a" and "\<not> c \<Longrightarrow> halts_at w St S b"
  shows "halts_at w St S (if c then a else b)"
  using assms by simp

lemma halts_at_session_loop:
  assumes "missing_input w S St"
  shows "halts_at w St S (session_loop w fill St skip experiment converted subject sessions)"
proof (induction sessions)
  case Nil
  show ?case by (simp add: halts_at_Nil)
next
  case (Cons sess rest)
  show ?case
    unfolding session_loop.simps Let_def
    by (intro halts_at_if halts_at_and_then halts_at_Status halts_at_prepare
        halts_at_convert_data [OF assms] Cons.IH)
qed

lemma halts_at_subject_loop:
  assumes "missing_input w S St"
  shows "halts_at w St S (subject_loop w fill St skip experiment converted items)"
proof (induction items)
  case Nil
  show ?case by (simp add: halts_at_Nil)
next
  case (Cons item items)
  obtain subject sessions where item: "item = (subject, sessions)"
    by (cases item)
  show ?case
    unfolding item subject_loop.simps
    by (intro halts_at_if halts_at_and_then halts_at_Status
        halts_at_session_loop [OF assms] Cons.IH)
qed

lemma halts_at_run_all_conversions:
  assumes "missing_input w S St"
  shows "halts_at w St S (run_all_conversions w fill St skip experiment)"
  unfolding run_all_conversions_def Let_def
  by (intro halts_at_and_then halts_at_Status halts_at_subject_loop [OF assms])

lemma Output_convert_data_missing:
  assumes "missing_input w S St"
  shows "Output x \<notin> set (snd (convert_data w fill S St))"
  unfolding convert_data_missing [OF assms] by simp

text \<open>
  In every module that compiles, lines 24-57 stop a call with a missing input: it
  raises \<open>AssertionError\<close> having done nothing but print its status line, so the
  remainder is not run and nothing is written; and if a batch run calls
  \<open>convert_data\<close> for such a session, the run raises \<open>AssertionError\<close> and that
  stopped call is the last thing it did.
\<close>

lemma compiled_missing_input_stops_batch:
  assumes "missing_input w S St"
  shows "convert_data w fill S St =
           (Inl AssertionError,
            [Call_convert_data S,
             Status (VERBOSE St)
               (''Converting data for: '' @
                  make_session_name w (SUBJECT S) (EXPERIMENT S) (SESSION S)) 0]) \<and>
         Output x \<notin> set (snd (convert_data w fill S St)) \<and>
         (Call_convert_data S \<in> set (snd (run_all_conversions w fill St skip experiment)) \<longrightarrow>
            fst (run_all_conversions w fill St skip experiment) = Inl AssertionError \<and>
            (\<exists>pre. snd (run_all_conversions w fill St skip experiment) = pre @ stopped_call w St S))"
  using convert_data_missing [OF assms] Output_convert_data_missing [OF assms]
    halts_at_run_all_conversions [OF assms, of fill skip "experiment"]
  unfolding halts_at_def by blast

lemma example_run_halts:
  "run_all_conversions example_world example_fill example_settings
     \<lparr>SUBJECTS = [], SESSIONS = []\<rparr> ''exp'' =
   (Inl AssertionError,
    [Status True ([LF, LF] @ ''RUNNING ALL CONVERSIONS FOR - exp'' @ [LF, LF]) 0,
     Status True (''SESSION ALREADY RUN: '' @ [TAB] @ ''sub1_exp_s0'') 0,
     Call_prepare_data \<lparr>SUBJECT = ''sub1'', EXPERIMENT = ''exp'', SESSION = ''s1''\<rparr>,
     Call_convert_data \<lparr>SUBJECT = ''sub1'', EXPERIMENT = ''exp'', SESSION = ''s1''\<rparr>,
     Status True ''Converting data for: sub1_exp_s1'' 0,
     Output ''saved'',
     Call_prepare_data \<lparr>SUBJECT = ''sub2'', EXPERIMENT = ''exp'', SESSION = ''s0''\<rparr>,
     Call_convert_data \<lparr>SUBJECT = ''sub2'', EXPERIMENT = ''exp'', SESSION = ''s0''\<rparr>,
     Status True ''Converting data for: sub2_exp_s0'' 0])"
  by (simp add: run_all_conversions_def all_sessions_def example_world_def example_settings_def
      example_fill_def and_then_def convert_data_def Let_def)


text \<open>
  Claim C8, as stated, fails where a call raises, since nothing in the driver catches
  it. In the example layout with nothing to skip but the session already converted, the
  pair of \<open>sub2\<close> and \<open>s1\<close> is enumerated and passes the three tests, yet the pipeline
  is never called for it: the run stops at \<open>s0\<close> of \<open>sub2\<close>, which has no spike file.
\<close>

theorem pair_to_run_not_called:
  "(''sub2'', ''s1'') \<in> set (enumerated example_world ''exp'') \<and>
   to_run example_world example_settings \<lparr>SUBJECTS = [], SESSIONS = []\<rparr> ''exp'' (''sub2'', ''s1'') \<and>
   fst (run_all_conversion_script (Filled example_fill) example_world example_settings
          \<lparr>SUBJECTS = [], SESSIONS = []\<rparr> ''exp'') = Inl AssertionError \<and>
   prepare_calls (snd (run_all_conversion_script (Filled example_fill) example_world example_settings
          \<lparr>SUBJECTS = [], SESSIONS = []\<rparr> ''exp'')) =
     [\<lparr>SUBJECT = ''sub1'', EXPERIMENT = ''exp'', SESSION = ''s1''\<rparr>,
      \<lparr>SUBJECT = ''sub2'', EXPERIMENT = ''exp'', SESSION = ''s0''\<rparr>] \<and>
   convert_calls (snd (run_all_conversion_script (Filled example_fill) example_world example_settings
          \<lparr>SUBJECTS = [], SESSIONS = []\<rparr> ''exp'')) =
     [\<lparr>SUBJECT = ''sub1'', EXPERIMENT = ''exp'', SESSION = ''s1''\<rparr>,
      \<lparr>SUBJECT = ''sub2'', EXPERIMENT = ''exp'', SESSION = ''s0''\<rparr>]"
proof -
  have e: "enumerated example_world ''exp'' =
      [(''sub1'', ''s0''), (''sub1'', ''s1''), (''sub2'', ''s0''), (''sub2'', ''s1'')]"
    by (simp add: enumerated_def all_sessions_def example_world_def)
  have t: "to_run example_world example_settings \<lparr>SUBJECTS = [], SESSIONS = []\<rparr> ''exp''
             (''sub2'', ''s1'')"
    by (simp add: to_run_def example_world_def example_settings_def)
  have r: "run_all_conversion_script (Filled example_fill) example_world example_settings
          \<lparr>SUBJECTS = [], SESSIONS = []\<rparr> ''exp'' =
        run_all_conversions example_world example_fill example_settings
          \<lparr>SUBJECTS = [], SESSIONS = []\<rparr> ''exp''"
    by (simp add: run_all_conversion_script_def import_convert_data_def)
  show ?thesis
    unfolding r example_run_halts e using t by simp
qed

text \<open>
  Claim C8, amended. The batch never calls the pipeline for a skipped pair: the
  sessions for which \<open>prepare_data\<close> is called are an initial part, in order, of the
  enumerated pairs that pass the three tests, and those for which \<open>convert_data\<close> is
  called are an initial part of these; a run that returns has called both steps for
  exactly the pairs that pass the tests. Once the script's imports have succeeded, this
  initial part is known: the pipeline is called for the pairs that pass the tests, in
  order, up to and including the first pair for which a call raises, and that
  exception is what the run raises.
\<close>

theorem run_all_conversions_calls:
  assumes "r = run_all_conversion_script rem w St skip experiment"
    and "kept = map (session_of experiment)
                  (filter (to_run w St skip experiment) (enumerated w experiment))"
  shows "(fst r = Inr () \<longrightarrow> prepare_calls (snd r) = kept \<and> convert_calls (snd r) = kept) \<and>
         (\<exists>rest. kept = prepare_calls (snd r) @ rest) \<and>
         (\<exists>rest. prepare_calls (snd r) = convert_calls (snd r) @ rest) \<and>
         (\<forall>fill. import_convert_data rem = Inr fill \<longrightarrow>
            (fst r, prepare_calls (snd r), convert_calls (snd r)) = batch_spec w fill St kept)"
proof (cases rem)
  case Placeholders
  then have "r = (Inl SyntaxError, [])"
    unfolding assms(1) by (simp add: run_all_conversion_script_def import_convert_data_def)
  then show ?thesis
    using Placeholders by (simp add: import_convert_data_def)
next
  case (Filled fill)
  then have r: "r = run_all_conversions w fill St skip experiment"
    unfolding assms(1) by (simp add: run_all_conversion_script_def import_convert_data_def)
  have s: "batch_spec w fill St kept = (fst r, prepare_calls (snd r), convert_calls (snd r))"
    using summary_run_all_conversions [of w fill St skip "experiment"]
    unfolding r assms(2) summary_def by simp
  have i: "import_convert_data rem = Inr f \<longleftrightarrow> f = fill" for f
    using Filled by (auto simp: import_convert_data_def)
  show ?thesis
    using batch_spec_follows [OF s] s unfolding i by simp
qed

theorem run_all_conversions_calls_witness:
  "fst (run_all_conversion_script (Filled example_fill) example_world example_settings
          \<lparr>SUBJECTS = [''sub2''], SESSIONS = []\<rparr> ''exp'') = Inr () \<and>
   import_convert_data (Filled example_fill) = Inr example_fill \<and>
   prepare_calls (snd (run_all_conversion_script (Filled example_fill) example_world example_settings
          \<lparr>SUBJECTS = [''sub2''], SESSIONS = []\<rparr> ''exp''))
     = [\<lparr>SUBJECT = ''sub1'', EXPERIMENT = ''exp'', SESSION = ''s1''\<rparr>] \<and>
   convert_calls (snd (run_all_conversion_script (Filled example_fill) example_world example_settings
          \<lparr>SUBJECTS = [''sub2''], SESSIONS = []\<rparr> ''exp''))
     = [\<lparr>SUBJECT = ''sub1'', EXPERIMENT = ''exp'', SESSION = ''s1''\<rparr>] \<and>
   batch_spec example_world example_fill example_settings
     [\<lparr>SUBJECT = ''sub1'', EXPERIMENT = ''exp'', SESSION = ''s1''\<rparr>] =
     (Inr (), [\<lparr>SUBJECT = ''sub1'', EXPERIMENT = ''exp'', SESSION = ''s1''\<rparr>],
      [\<lparr>SUBJECT = ''sub1'', EXPERIMENT = ''exp'', SESSION = ''s1''\<rparr>]) \<and>
   import_convert_data (Filled example_fill_unbound) = Inr example_fill_unbound \<and>
   (fst (run_all_conversion_script (Filled example_fill_unbound) example_world example_settings
           \<lparr>SUBJECTS = [], SESSIONS = []\<rparr> ''exp''),
    prepare_calls (snd (run_all_conversion_script (Filled example_fill_unbound) example_world
           example_settings \<lparr>SUBJECTS = [], SESSIONS = []\<rparr> ''exp'')),
    convert_calls (snd (run_all_conversion_script (Filled example_fill_unbound) example_world
           example_settings \<lparr>SUBJECTS = [], SESSIONS = []\<rparr> ''exp''))) =
     (Inl NameError, [\<lparr>SUBJECT = ''sub1'', EXPERIMENT = ''exp'', SESSION = ''s1''\<rparr>],
      [\<lparr>SUBJECT = ''sub1'', EXPERIMENT = ''exp'', SESSION = ''s1''\<rparr>])"
proof -
  let ?skip = "\<lparr>SUBJECTS = [''sub2''], SESSIONS = []\<rparr>"
  let ?run = "run_all_conversion_script (Filled example_fill) example_world example_settings ?skip ''exp''"
  let ?S = "\<lparr>SUBJECT = ''sub1'', EXPERIMENT = ''exp'', SESSION = ''s1''\<rparr>"
  have ok: "fst ?run = Inr ()"
    by (simp add: run_all_conversion_script_def import_convert_data_def run_all_conversions_def
        all_sessions_def example_world_def example_settings_def example_fill_def and_then_def
        convert_data_def Let_def)
  have im: "import_convert_data (Filled example_fill) = Inr example_fill"
    by (simp add: import_convert_data_def)
  have e: "enumerated example_world ''exp'' =
      [(''sub1'', ''s0''), (''sub1'', ''s1''), (''sub2'', ''s0''), (''sub2'', ''s1'')]"
    by (simp add: enumerated_def all_sessions_def example_world_def)
  have k: "map (session_of ''exp'')
             (filter (to_run example_world example_settings ?skip ''exp'')
                (enumerated example_world ''exp''))
           = [?S]"
    unfolding e by (simp add: to_run_def session_of_def example_world_def example_settings_def)
  note inst = run_all_conversions_calls
    [OF refl refl, of "Filled example_fill" example_world example_settings ?skip "''exp''"]
  from inst ok have c: "prepare_calls (snd ?run) = [?S]" "convert_calls (snd ?run) = [?S]"
    unfolding k by blast+
  from inst im have "(fst ?run, prepare_calls (snd ?run), convert_calls (snd ?run)) =
      batch_spec example_world example_fill example_settings [?S]"
    unfolding k by blast
  then have b: "batch_spec example_world example_fill example_settings [?S] = (Inr (), [?S], [?S])"
    unfolding ok c by simp
  let ?none = "\<lparr>SUBJECTS = [], SESSIONS = []\<rparr>"
  let ?run' = "run_all_conversion_script (Filled example_fill_unbound) example_world
                 example_settings ?none ''exp''"
  let ?S2 = "\<lparr>SUBJECT = ''sub2'', EXPERIMENT = ''exp'', SESSION = ''s0''\<rparr>"
  let ?S3 = "\<lparr>SUBJECT = ''sub2'', EXPERIMENT = ''exp'', SESSION = ''s1''\<rparr>"
  have im': "import_convert_data (Filled example_fill_unbound) = Inr example_fill_unbound"
    by (simp add: import_convert_data_def)
  have k': "map (session_of ''exp'')
             (filter (to_run example_world example_settings ?none ''exp'')
                (enumerated example_world ''exp''))
           = [?S, ?S2, ?S3]"
    unfolding e by (simp add: to_run_def session_of_def example_world_def example_settings_def)
  have s': "batch_spec example_world example_fill_unbound example_settings [?S, ?S2, ?S3] =
      (Inl NameError, [?S], [?S])"
    by (simp add: example_world_def example_settings_def example_fill_unbound_def convert_data_def
        and_then_def Let_def)
  from run_all_conversions_calls
    [OF refl refl, of "Filled example_fill_unbound" example_world example_settings ?none "''exp''"]
    im'
  have "(fst ?run', prepare_calls (snd ?run'), convert_calls (snd ?run')) =
      batch_spec example_world example_fill_unbound example_settings [?S, ?S2, ?S3]"
    unfolding k' by blast
  then have u: "(fst ?run', prepare_calls (snd ?run'), convert_calls (snd ?run')) =
      (Inl NameError, [?S], [?S])"
    unfolding s' .
  from ok im c b im' u show ?thesis
    by blast
qed

end
